theory Spec2Isabelle
  imports Complex_Main
begin

section \<open>Arrays\<close>

text \<open>
  The module \<^verbatim>\<open>lenstronomy/LightModel/Profiles/starlets.py\<close> works on numpy arrays.  The
  data of an array are nested lists (outermost list = axis 0) of real numbers; an array
  value carries, beside its data, its dtype and its shape, as numpy arrays do, so that an
  array without rows still has a column count.

  Two dtypes are modelled: \<^verbatim>\<open>float64\<close> and \<^verbatim>\<open>int64\<close> (what numpy makes of Python
  floats and of Python ints); an \<^verbatim>\<open>int64\<close> array holds integers.  Floating-point rounding
  and integer overflow are not modelled: every operation is exact, and a conversion to
  \<^verbatim>\<open>int64\<close> drops the fraction.

  The theorems are about arrays whose data have the declared shape, see \<open>has_shape\<close>.
\<close>

type_synonym array1 = "real list"
type_synonym array2 = "real list list"
type_synonym array3 = "real list list list"
type_synonym array4 = "real list list list list"

datatype dtype = Float64 | Int64

text \<open>What \<^verbatim>\<open>decomposition\<close> accepts and \<^verbatim>\<open>function\<close> returns: a 2-D image (dtype, shape
  \<open>(sh0, sh1)\<close>, rows) or a 3-D stack of slices; and what \<^verbatim>\<open>decomposition\<close> returns and
  \<^verbatim>\<open>function\<close> accepts: a 3-D cube of planes (dtype, shape \<open>(lvl, n1, n2)\<close>, planes), or the
  4-D array of the stack branch.\<close>

datatype image = Image2 dtype nat nat array2 | Stack3 dtype nat nat nat array3

datatype cube = Cube3 dtype nat nat nat array3 | Cube4 dtype nat nat nat nat array4

datatype error =
    ValueError | TypeError | NameError | UnboundLocalError | OverflowError | IndexError
  | AttributeError

text \<open>What the module writes to standard output: line 124,
  \<^verbatim>\<open>print("Warning : lvl set to {}".format(lvl))\<close>, where \<^verbatim>\<open>lvl\<close> is an integer (printed as
  \<^verbatim>\<open>2\<close>) or a \<^verbatim>\<open>float64\<close> (printed as \<^verbatim>\<open>2.0\<close>).\<close>

datatype message = Warning_lvl_set_to int | Warning_lvl_set_to_float real

text \<open>Conversion of a computed value to the dtype of the array that receives it.\<close>

definition astype :: "dtype \<Rightarrow> real \<Rightarrow> real" where
  "astype dt v =
     (case dt of
        Float64 \<Rightarrow> v
      | Int64 \<Rightarrow> if 0 \<le> v then of_int \<lfloor>v\<rfloor> else of_int \<lceil>v\<rceil>)"

definition ncols :: "'a list list \<Rightarrow> nat" where
  "ncols a = (case a of [] \<Rightarrow> 0 | r # _ \<Rightarrow> length r)"

definition has_shape :: "nat \<Rightarrow> nat \<Rightarrow> array2 \<Rightarrow> bool" where
  "has_shape n1 n2 a \<longleftrightarrow> length a = n1 \<and> list_all (\<lambda>r. length r = n2) a"

definition zeros2 :: "nat \<Rightarrow> nat \<Rightarrow> array2" where
  "zeros2 n1 n2 = replicate n1 (replicate n2 0)"

definition zeros3 :: "nat \<Rightarrow> nat \<Rightarrow> nat \<Rightarrow> array3" where
  "zeros3 l n1 n2 = replicate l (zeros2 n1 n2)"

definition zeros4 :: "nat \<Rightarrow> nat \<Rightarrow> nat \<Rightarrow> nat \<Rightarrow> array4" where
  "zeros4 l n1 n2 k = replicate l (replicate n1 (replicate n2 (replicate k 0)))"

text \<open>Elementwise \<^verbatim>\<open>a - b\<close> and \<^verbatim>\<open>a + b\<close> of two arrays of one shape (the only use the
  module makes of them: both operands are an image and a smoothed copy of it).\<close>

definition sub2 :: "array2 \<Rightarrow> array2 \<Rightarrow> array2" where
  "sub2 a b = map2 (map2 (-)) a b"

definition add2 :: "array2 \<Rightarrow> array2 \<Rightarrow> array2" where
  "add2 a b = map2 (map2 (+)) a b"

text \<open>\<^verbatim>\<open>np.sum(wave, axis=0)\<close> on a cube of planes of shape \<open>(n1, n2)\<close>: pixel \<open>(y, x)\<close> of the
  result is the sum over all planes; and the same on a 4-D array.\<close>

definition sum_axis0 :: "nat \<Rightarrow> nat \<Rightarrow> array3 \<Rightarrow> array2" where
  "sum_axis0 n1 n2 wave = map (\<lambda>y. map (\<lambda>x. \<Sum>p\<leftarrow>wave. p ! y ! x) [0..<n2]) [0..<n1]"

definition sum_axis0_4 :: "nat \<Rightarrow> nat \<Rightarrow> nat \<Rightarrow> array4 \<Rightarrow> array3" where
  "sum_axis0_4 n1 n2 k wave =
     map (\<lambda>y. map (\<lambda>x. map (\<lambda>z. \<Sum>p\<leftarrow>wave. p ! y ! x ! z) [0..<k]) [0..<n2]) [0..<n1]"

text \<open>numpy broadcasting of a 2-D value of shape \<open>(a, b)\<close> into a slot of shape \<open>(n1, n2)\<close>:
  each axis of the value must have the slot's length or length 1 (then it is repeated);
  anything else is \<^verbatim>\<open>ValueError: could not broadcast input array\<close>.\<close>

definition broadcast_to :: "nat \<Rightarrow> nat \<Rightarrow> nat \<Rightarrow> nat \<Rightarrow> array2 \<Rightarrow> error + array2" where
  "broadcast_to n1 n2 a b v =
     (if (a = n1 \<or> a = 1) \<and> (b = n2 \<or> b = 1)
      then Inr (map (\<lambda>y. map (\<lambda>x. v ! (if a = 1 then 0 else y) ! (if b = 1 then 0 else x))
                            [0..<n2]) [0..<n1])
      else Inl ValueError)"

text \<open>\<^verbatim>\<open>wave[i, :, :] = v\<close> on a \<^verbatim>\<open>float64\<close> cube whose planes have shape \<open>(n1, n2)\<close>, for a
  value of shape \<open>(a, b)\<close>.\<close>

definition setitem ::
  "array3 \<Rightarrow> nat \<Rightarrow> nat \<Rightarrow> nat \<Rightarrow> nat \<Rightarrow> nat \<Rightarrow> array2 \<Rightarrow> error + array3"
where
  "setitem wave i n1 n2 a b v =
     (if length wave \<le> i then Inl IndexError
      else case broadcast_to n1 n2 a b v of
             Inl e \<Rightarrow> Inl e
           | Inr p \<Rightarrow> Inr (wave[i := p]))"

text \<open>\<^verbatim>\<open>np.reshape(a, (n1, n2))\<close>: the elements in row-major order, regrouped.\<close>

definition reshape :: "array2 \<Rightarrow> nat \<Rightarrow> nat \<Rightarrow> error + array2" where
  "reshape a n1 n2 =
     (let flat = concat a
      in if length flat = n1 * n2
         then Inr (map (\<lambda>y. take n2 (drop (y * n2) flat)) [0..<n1])
         else Inl ValueError)"

text \<open>A Python \<^verbatim>\<open>for i in ...\<close> loop whose body may raise: the first error ends it.\<close>

fun for_range :: "(nat \<Rightarrow> 's \<Rightarrow> error + 's) \<Rightarrow> nat list \<Rightarrow> 's \<Rightarrow> error + 's" where
  "for_range body [] s = Inr s"
| "for_range body (i # is) s =
     (case body i s of Inl e \<Rightarrow> Inl e | Inr s' \<Rightarrow> for_range body is s')"

section \<open>Filter generator\<close>

text \<open>\<^verbatim>\<open>np.linspace(start, stop, num, dtype=int)\<close>: \<open>num\<close> evenly spaced samples, the last one
  set to \<open>stop\<close>, each truncated to an integer (all samples here are non-negative).\<close>

definition linspace_int :: "real \<Rightarrow> real \<Rightarrow> nat \<Rightarrow> int list" where
  "linspace_int start stop num =
     (if num = 1 then [\<lfloor>start\<rfloor>]
      else map (\<lambda>k. if k = num - 1 then \<lfloor>stop\<rfloor>
                     else \<lfloor>start + real k * ((stop - start) / real (num - 1))\<rfloor>) [0..<num])"

text \<open>\<^verbatim>\<open>a[0, js] = vs\<close> with an index array: the values are stored one after the other.\<close>

fun index_put :: "array1 \<Rightarrow> int list \<Rightarrow> array1 \<Rightarrow> array1" where
  "index_put a (j # js) (v # vs) = index_put (a[nat j := v]) js vs"
| "index_put a _ _ = a"

definition bspline :: array1 where
  "bspline = [1/16, 1/4, 3/8, 1/4, 1/16]"

definition linear :: array1 where
  "linear = [1/4, 1/2, 1/4]"

text \<open>Lines 114-117: any \<^verbatim>\<open>Filter\<close> other than \<^verbatim>\<open>'Bspline'\<close> selects the linear kernel.\<close>

definition base_kernel :: "string \<Rightarrow> array1" where
  "base_kernel Filter = (if Filter = ''Bspline'' then bspline else linear)"

text \<open>Lines 131-132 and 188-189: the kernel of scale \<open>i\<close>,
  \<^verbatim>\<open>newh = np.zeros((1, n+(n-1)*(2**i-1)))\<close>,
  \<^verbatim>\<open>newh[0, np.linspace(0, np.size(newh)-1, len(h), dtype=int)] = h\<close>
  (\<open>h\<close> has 5 or 3 taps in the module, so \<open>n - 1\<close> is never negative).\<close>

definition dilate :: "array1 \<Rightarrow> nat \<Rightarrow> array1" where
  "dilate h i =
     (let n = length h;
          newh = replicate (n + (n - 1) * (2 ^ i - 1)) 0
      in index_put newh (linspace_int 0 (real (length newh) - 1) (length h)) h)"

text \<open>\<^verbatim>\<open>H = np.dot(newh.T, newh)\<close>: the outer product of the kernel with itself.\<close>

definition outer :: "array1 \<Rightarrow> array1 \<Rightarrow> array2" where
  "outer u v = map (\<lambda>a. map (\<lambda>b. a * b) v) u"

section \<open>Convolver\<close>

text \<open>
  The two library convolutions, from their documentation.

  \<^verbatim>\<open>scipy.ndimage.convolve1d(input, weights, axis, mode)\<close> computes, along the axis,
  \<open>out[i] = \<Sum>k. weights[k] * input[i + len(weights) div 2 - k]\<close>, reading positions outside
  the array through the boundary mode, and returns an array of the dtype of its input: on
  an \<^verbatim>\<open>int64\<close> image every sum is cut to an integer.  Modes: \<^verbatim>\<open>'nearest'\<close> (\<open>a a a | a b c d | d d d\<close>),
  \<^verbatim>\<open>'mirror'\<close> (\<open>d c b | a b c d | c b a\<close>), \<^verbatim>\<open>'reflect'\<close> (\<open>c b a | a b c d | d c b\<close>).

  \<^verbatim>\<open>scipy.signal.convolve2d(in1, in2, mode='same', boundary='symm')\<close> computes
  \<open>out[y, x] = \<Sum>j k. in2[j, k] * in1[y + (rows in2 - 1) div 2 - j, x + (cols in2 - 1) div 2 - k]\<close>,
  reading positions outside the array by symmetric reflection (\<open>c b a | a b c d | d c b\<close>);
  with the \<^verbatim>\<open>float64\<close> kernels of this module the result is \<^verbatim>\<open>float64\<close> whatever the dtype of
  \<^verbatim>\<open>in1\<close>.

  Both read the row and column counts of their input from the data; for an array without
  rows the result has no rows either, whatever its column count.
\<close>

datatype mode = Nearest | Mirror | Reflect

definition nearest_index :: "nat \<Rightarrow> int \<Rightarrow> nat" where
  "nearest_index n k = (if k < 0 then 0 else if int n \<le> k then n - 1 else nat k)"

definition mirror_index :: "nat \<Rightarrow> int \<Rightarrow> nat" where
  "mirror_index n k =
     (if n \<le> 1 then 0
      else let p = 2 * int n - 2; m = k mod p
           in if m < int n then nat m else nat (p - m))"

definition symm_index :: "nat \<Rightarrow> int \<Rightarrow> nat" where
  "symm_index n k =
     (let p = 2 * int n; m = k mod p
      in if m < int n then nat m else nat (p - 1 - m))"

fun ext_index :: "mode \<Rightarrow> nat \<Rightarrow> int \<Rightarrow> nat" where
  "ext_index Nearest n k = nearest_index n k"
| "ext_index Mirror n k = mirror_index n k"
| "ext_index Reflect n k = symm_index n k"

definition convolve1d :: "dtype \<Rightarrow> array2 \<Rightarrow> array1 \<Rightarrow> nat \<Rightarrow> mode \<Rightarrow> array2" where
  "convolve1d dt input weights axis m =
     (let n1 = length input; n2 = ncols input; r = int (length weights div 2)
      in if axis = 0
         then map (\<lambda>y. map (\<lambda>x. astype dt (\<Sum>k\<leftarrow>[0..<length weights].
                      weights ! k * input ! ext_index m n1 (int y + r - int k) ! x))
                    [0..<n2]) [0..<n1]
         else map (\<lambda>y. map (\<lambda>x. astype dt (\<Sum>k\<leftarrow>[0..<length weights].
                      weights ! k * input ! y ! ext_index m n2 (int x + r - int k)))
                    [0..<n2]) [0..<n1])"

definition convolve2d_same_symm :: "array2 \<Rightarrow> array2 \<Rightarrow> array2" where
  "convolve2d_same_symm in1 in2 =
     (let n1 = length in1; n2 = ncols in1;
          r1 = int ((length in2 - 1) div 2); r2 = int ((ncols in2 - 1) div 2)
      in map (\<lambda>y. map (\<lambda>x. \<Sum>j\<leftarrow>[0..<length in2]. \<Sum>k\<leftarrow>[0..<ncols in2].
                   in2 ! j ! k * in1 ! symm_index n1 (int y + r1 - int j)
                                     ! symm_index n2 (int x + r2 - int k))
                 [0..<n2]) [0..<n1])"

text \<open>The smoothing step, written three times in the module (lines 138-144, 150-156 and
  193-198): one 2-D convolution with \<^verbatim>\<open>H\<close> when \<^verbatim>\<open>convol2d == 1\<close>, otherwise a convolution
  along axis 0 followed by one along axis 1, both with \<^verbatim>\<open>mode = 'nearest'\<close> (lines 97, 177).
  The first argument is the dtype of \<^verbatim>\<open>c\<close>; \<open>smooth_dtype\<close> is the dtype of the result.\<close>

definition smooth :: "dtype \<Rightarrow> int \<Rightarrow> array2 \<Rightarrow> array1 \<Rightarrow> array2" where
  "smooth dt convol2d c newh =
     (let mode = Nearest; H = outer newh newh
      in if convol2d = 1 then convolve2d_same_symm c H
         else convolve1d dt (convolve1d dt c newh 0 mode) newh 1 mode)"

definition smooth_dtype :: "dtype \<Rightarrow> int \<Rightarrow> dtype" where
  "smooth_dtype dt convol2d = (if convol2d = 1 then Float64 else dt)"

section \<open>The class \<^verbatim>\<open>Starlets\<close>\<close>

text \<open>
  The optional pysap backend is a third-party library: \<^verbatim>\<open>_load_pysap\<close> stores the imported
  module (or \<^verbatim>\<open>None\<close>) in \<^verbatim>\<open>self._pysap\<close> and whether the import succeeded in
  \<^verbatim>\<open>self._use_pysap\<close>.  The two methods that delegate to it (\<^verbatim>\<open>_transform\<close>,
  \<^verbatim>\<open>_inverse_transform\<close>) are kept opaque, as fields of the backend.

  The attributes \<^verbatim>\<open>_spectral_norm\<close> and \<^verbatim>\<open>_n_scales_cache\<close> do not exist until
  \<^verbatim>\<open>spectral_norm\<close> sets them: \<open>None\<close> is the absent attribute.
\<close>

record pysap_backend =
  pysap_transform :: "image \<Rightarrow> int \<Rightarrow> message list \<times> (error + cube)"
  pysap_inverse_transform :: "cube \<Rightarrow> int \<Rightarrow> error + image"

record starlets =
  pysap :: "pysap_backend option"
  use_pysap :: bool
  thread_count :: int
  fast_inverse :: bool
  second_gen :: bool
  show_pysap_plots :: bool
  spectral_norm_attr :: "real option"
  n_scales_cache :: "int option"

text \<open>\<^verbatim>\<open>__init__(self, thread_count=1, fast_inverse=True, second_gen=False,
  show_pysap_plots=False)\<close>; the first argument of the model is the outcome of
  \<^verbatim>\<open>import pysap\<close>.\<close>

definition init :: "pysap_backend option \<Rightarrow> int \<Rightarrow> bool \<Rightarrow> bool \<Rightarrow> bool \<Rightarrow> starlets" where
  "init imported thread_count' fast_inverse' second_gen' show_pysap_plots' =
     \<lparr>pysap = imported, use_pysap = (imported \<noteq> None), thread_count = thread_count',
      fast_inverse = fast_inverse', second_gen = second_gen',
      show_pysap_plots = show_pysap_plots',
      spectral_norm_attr = None, n_scales_cache = None\<rparr>"

section \<open>Forward transform\<close>

text \<open>\<^verbatim>\<open>int(np.log2(n2))\<close>: the floor of the binary logarithm; \<^verbatim>\<open>np.log2(0)\<close> is \<open>-inf\<close> and
  \<^verbatim>\<open>int(-inf)\<close> raises \<^verbatim>\<open>OverflowError\<close>.\<close>

fun ilog2 :: "nat \<Rightarrow> nat" where
  "ilog2 n = (if n < 2 then 0 else Suc (ilog2 (n div 2)))"

declare ilog2.simps [simp del]

definition int_log2 :: "nat \<Rightarrow> error + int" where
  "int_log2 n = (if n = 0 then Inl OverflowError else Inr (int (ilog2 n)))"

text \<open>The body of the loop \<^verbatim>\<open>for i in range(lvl)\<close> of \<^verbatim>\<open>_transform_slit\<close> (lines 131-166);
  the loop state is \<^verbatim>\<open>c\<close> with its dtype, and \<^verbatim>\<open>wave\<close>.  \<open>(a, b)\<close> is the shape of the image,
  which every \<^verbatim>\<open>c\<close> and every difference keeps.\<close>

definition transform_step ::
  "starlets \<Rightarrow> array1 \<Rightarrow> int \<Rightarrow> nat \<Rightarrow> nat \<Rightarrow> nat \<Rightarrow> nat \<Rightarrow> nat
     \<Rightarrow> dtype \<times> array2 \<times> array3 \<Rightarrow> error + dtype \<times> array2 \<times> array3"
where
  "transform_step self h convol2d n1 n2 a b i s =
     (let (dt, c, wave) = s;
          newh = dilate h i;
          cnew = smooth dt convol2d c newh;
          dnew = smooth_dtype dt convol2d
      in case setitem wave i n1 n2 a b
                (if second_gen self then sub2 c (smooth dnew convol2d cnew newh)
                 else sub2 c cnew) of
           Inl e \<Rightarrow> Inl e
         | Inr wave' \<Rightarrow> Inr (dnew, cnew, wave'))"

text \<open>
  \<^verbatim>\<open>_transform_slit(self, img, n_scales, Filter='Bspline', convol2d=0)\<close>, lines 95-170.
  The result is what was printed and either the exception raised or the array returned.

  Stack branch (lines 101-109): the loop body calls \<^verbatim>\<open>wave_transform\<close>.  The module binds
  only \<^verbatim>\<open>__author__\<close>, \<^verbatim>\<open>np\<close>, \<^verbatim>\<open>scs\<close>, \<^verbatim>\<open>scf\<close>, \<^verbatim>\<open>util\<close> and \<^verbatim>\<open>Starlets\<close>, and
  \<^verbatim>\<open>wave_transform\<close> is no builtin, so evaluating the callee raises \<^verbatim>\<open>NameError\<close> before
  any argument is evaluated: every pass through the body is that error.

  Image branch: \<^verbatim>\<open>n1 = sh[1]\<close> and \<^verbatim>\<open>n2 = sh[1]\<close> (lines 111-112).

  Line 121, \<^verbatim>\<open>np.min((lvl, int(np.log2(n2))))\<close>, makes an array of two Python integers.  When
  \<^verbatim>\<open>lvl\<close> is from \<open>2^63\<close> to \<open>2^64 - 1\<close> it fits \<^verbatim>\<open>uint64\<close> only, the other entry is \<^verbatim>\<open>int64\<close>,
  and numpy promotes the pair to \<^verbatim>\<open>float64\<close>: the minimum is the second entry as a float
  (a dimension of an array is below \<open>2^63\<close>, so its logarithm is at most 62), \<^verbatim>\<open>lvl\<close> exceeds
  it, the warning prints a float, and \<^verbatim>\<open>np.zeros\<close> raises \<^verbatim>\<open>TypeError\<close> on the float
  dimension.  For every other \<^verbatim>\<open>lvl\<close> the minimum is the integer minimum.

  After the loop, line 168 reads the loop variable \<^verbatim>\<open>i\<close>, which is unbound when the loop
  body never ran.  The cube is \<^verbatim>\<open>np.zeros(...)\<close>, a \<^verbatim>\<open>float64\<close> array.
\<close>

definition transform_slit ::
  "starlets \<Rightarrow> image \<Rightarrow> int \<Rightarrow> string \<Rightarrow> int \<Rightarrow> message list \<times> (error + cube)"
where
  "transform_slit self img n_scales Filter convol2d =
     (let lvl = n_scales - 1
      in case img of
           Stack3 dt s0 s1 s2 stk \<Rightarrow>
             (let mn = min s0 (min s1 s2)
              in if lvl + 1 < 0 then ([], Inl ValueError)
                 else case for_range (\<lambda>h wave. Inl NameError) [0..<mn]
                             (zeros4 (nat (lvl + 1)) s1 s1 mn) of
                        Inl e \<Rightarrow> ([], Inl e)
                      | Inr wave \<Rightarrow> ([], Inr (Cube4 Float64 (nat (lvl + 1)) s1 s1 mn wave)))
         | Image2 dt s0 s1 im \<Rightarrow>
             (let n1 = s1; n2 = s1;
                  h = base_kernel Filter
              in case int_log2 n2 of
                   Inl e \<Rightarrow> ([], Inl e)
                 | Inr l2 \<Rightarrow>
                     if 2 ^ 63 \<le> lvl \<and> lvl < 2 ^ 64
                     then ([Warning_lvl_set_to_float (of_int l2)], Inl TypeError)
                     else
                     (let max_lvl = min lvl l2;
                          out = (if lvl > max_lvl then [Warning_lvl_set_to max_lvl] else []);
                          lvl = (if lvl > max_lvl then max_lvl else lvl)
                      in if lvl + 1 < 0 then (out, Inl ValueError)
                         else case for_range (transform_step self h convol2d n1 n2 s0 s1)
                                     [0..<nat lvl] (dt, im, zeros3 (nat (lvl + 1)) n1 n2) of
                                Inl e \<Rightarrow> (out, Inl e)
                              | Inr (dt', c, wave) \<Rightarrow>
                                  if lvl \<le> 0 then (out, Inl UnboundLocalError)
                                  else (case setitem wave (nat lvl) n1 n2 s0 s1 c of
                                          Inl e \<Rightarrow> (out, Inl e)
                                        | Inr wave' \<Rightarrow>
                                            (out, Inr (Cube3 Float64 (nat (lvl + 1)) n1 n2 wave'))))))"

section \<open>Inverse transform\<close>

text \<open>\<^verbatim>\<open>_inverse_transform_slit(self, wave, convol2d=0, fast=True)\<close>, lines 172-202.  The
  parameter \<^verbatim>\<open>fast\<close> is never read.  On a 3-D cube with no plane, \<^verbatim>\<open>wave[lvl-1]\<close> is
  \<^verbatim>\<open>wave[-1]\<close> on an empty axis: \<^verbatim>\<open>IndexError\<close>.  On a 4-D array the fast path sums along
  axis 0 and the other path fails at \<^verbatim>\<open>lvl, n1, n2 = np.shape(wave)\<close> with \<^verbatim>\<open>ValueError\<close>.
  The loop state is \<^verbatim>\<open>cJ\<close> with its dtype.\<close>

definition inverse_transform_slit :: "starlets \<Rightarrow> cube \<Rightarrow> int \<Rightarrow> bool \<Rightarrow> error + image" where
  "inverse_transform_slit self coeffs convol2d fast =
     (case coeffs of
        Cube3 dt lvl n1 n2 wave \<Rightarrow>
          if fast_inverse self \<and> \<not> second_gen self
          then Inr (Image2 dt n1 n2 (sum_axis0 n1 n2 wave))
          else let h = bspline
               in if lvl = 0 then Inl IndexError
                  else (case fold (\<lambda>i (d, cJ).
                                     (smooth_dtype d convol2d,
                                      add2 (smooth d convol2d cJ (dilate h (lvl - 1 - i)))
                                           (wave ! (lvl - 1 - i))))
                                  [1..<lvl] (dt, wave ! (lvl - 1)) of
                          (d, cJ) \<Rightarrow>
                            (case reshape cJ n1 n2 of
                               Inl e \<Rightarrow> Inl e
                             | Inr a \<Rightarrow> Inr (Image2 d n1 n2 a)))
      | Cube4 dt lvl n1 n2 k wave \<Rightarrow>
          if fast_inverse self \<and> \<not> second_gen self
          then Inr (Stack3 dt n1 n2 k (sum_axis0_4 n1 n2 k wave))
          else Inl ValueError)"

section \<open>Facade\<close>

text \<open>\<^verbatim>\<open>decomposition(self, image, n_scales)\<close>, lines 34-42, and
  \<^verbatim>\<open>function(self, coeffs, n_scales)\<close>, lines 27-32 (\<open>function\<close> is a keyword here, hence
  the longer name).\<close>

definition decomposition :: "starlets \<Rightarrow> image \<Rightarrow> int \<Rightarrow> message list \<times> (error + cube)" where
  "decomposition self img n_scales =
     (if use_pysap self
      then (case pysap self of
              None \<Rightarrow> ([], Inl AttributeError)
            | Some b \<Rightarrow> pysap_transform b img n_scales)
      else transform_slit self img n_scales ''Bspline'' 0)"

definition function_starlets :: "starlets \<Rightarrow> cube \<Rightarrow> int \<Rightarrow> error + image" where
  "function_starlets self coeffs n_scales =
     (if use_pysap self
      then (case pysap self of
              None \<Rightarrow> Inl AttributeError
            | Some b \<Rightarrow> pysap_inverse_transform b coeffs n_scales)
      else inverse_transform_slit self coeffs 0 True)"

section \<open>Spectral norm and its cache\<close>

text \<open>
  \<^verbatim>\<open>util.spectral_norm\<close> (the power iteration) lives in \<^verbatim>\<open>lenstronomy.Util.util\<close>; it is a
  parameter of the model.  It draws pseudo-random numbers, so it reads and changes a world
  \<open>'w\<close> outside the object (random state, output, anything that counts calls); a call of
  \<^verbatim>\<open>spectral_norm\<close> that leaves the world as it was has not run the iteration.
\<close>

type_synonym 'w power_iteration =
  "'w \<Rightarrow> nat \<Rightarrow> (image \<Rightarrow> message list \<times> (error + cube)) \<Rightarrow> (cube \<Rightarrow> error + image)
      \<Rightarrow> nat \<Rightarrow> real \<Rightarrow> (error + real) \<times> 'w"

definition compute_spectral_norm ::
  "'w power_iteration \<Rightarrow> starlets \<Rightarrow> 'w \<Rightarrow> nat \<Rightarrow> int \<Rightarrow> nat \<Rightarrow> real \<Rightarrow> (error + real) \<times> 'w"
where
  "compute_spectral_norm util_spectral_norm self w num_pix n_scales num_iter tol =
     util_spectral_norm w num_pix (\<lambda>x. decomposition self x n_scales)
        (\<lambda>c. function_starlets self c n_scales) num_iter tol"

text \<open>\<^verbatim>\<open>spectral_norm(self, num_pix, n_scales)\<close>, lines 45-49: result, updated object, world.\<close>

definition spectral_norm ::
  "'w power_iteration \<Rightarrow> starlets \<Rightarrow> 'w \<Rightarrow> nat \<Rightarrow> int \<Rightarrow> (error + real) \<times> starlets \<times> 'w"
where
  "spectral_norm util_spectral_norm self w num_pix n_scales =
     (let recompute =
            (case compute_spectral_norm util_spectral_norm self w num_pix n_scales 20 (1 / 10 ^ 10) of
               (Inl e, w') \<Rightarrow> (Inl e, self, w')
             | (Inr v, w') \<Rightarrow>
                 (Inr v, self\<lparr>spectral_norm_attr := Some v, n_scales_cache := Some n_scales\<rparr>, w'))
      in case spectral_norm_attr self of
           None \<Rightarrow> recompute
         | Some v \<Rightarrow>
             (case n_scales_cache self of
                None \<Rightarrow> (Inl AttributeError, self, w)
              | Some c \<Rightarrow> if n_scales \<noteq> c then recompute else (Inr v, self, w)))"

section \<open>Notions used in the statements\<close>

text \<open>The smooth approximations of a \<^verbatim>\<open>float64\<close> image: \<open>c\<^sub>0\<close> is the image and \<open>c\<^sub>i\<^sub>+\<^sub>1\<close> is
  \<open>c\<^sub>i\<close> smoothed with the kernel of scale \<open>i\<close>; and the detail plane of scale \<open>i\<close> in either
  convention (the values the loop of \<^verbatim>\<open>_transform_slit\<close> stores in \<^verbatim>\<open>c\<close> and in \<^verbatim>\<open>wave[i]\<close>).\<close>

fun coarse :: "int \<Rightarrow> array1 \<Rightarrow> array2 \<Rightarrow> nat \<Rightarrow> array2" where
  "coarse convol2d h img 0 = img"
| "coarse convol2d h img (Suc i) = smooth Float64 convol2d (coarse convol2d h img i) (dilate h i)"

definition detail :: "bool \<Rightarrow> int \<Rightarrow> array1 \<Rightarrow> array2 \<Rightarrow> nat \<Rightarrow> array2" where
  "detail second convol2d h img i =
     (let c = coarse convol2d h img i; cnew = coarse convol2d h img (Suc i)
      in if second then sub2 c (smooth Float64 convol2d cnew (dilate h i)) else sub2 c cnew)"

text \<open>The convolver as the specification words it: rows then columns, the borders extended
  by reflection that does not repeat the edge sample (``mirror'').\<close>

definition mirror_convolve :: "dtype \<Rightarrow> array2 \<Rightarrow> array1 \<Rightarrow> array2" where
  "mirror_convolve dt c newh = convolve1d dt (convolve1d dt c newh 0 Mirror) newh 1 Mirror"

text \<open>A run of calls \<^verbatim>\<open>spectral_norm(p, n_scales)\<close> on one object, for the sizes \<open>p\<close> of a
  list and one \<open>n_scales\<close>: the results in order, the final object and the final world.\<close>

fun spectral_norm_calls ::
  "'w power_iteration \<Rightarrow> starlets \<Rightarrow> 'w \<Rightarrow> nat list \<Rightarrow> int \<Rightarrow> (error + real) list \<times> starlets \<times> 'w"
where
  "spectral_norm_calls util_spectral_norm self w [] n_scales = ([], self, w)"
| "spectral_norm_calls util_spectral_norm self w (p # ps) n_scales =
     (case spectral_norm util_spectral_norm self w p n_scales of
        (r, self', w') \<Rightarrow>
          (case spectral_norm_calls util_spectral_norm self' w' ps n_scales of
             (rs, self'', w'') \<Rightarrow> (r # rs, self'', w'')))"

section \<open>Properties of the filter generator\<close>

lemma length_index_put: "length (index_put a js vs) = length a"
  by (induction a js vs rule: index_put.induct) simp_all

lemma index_put_other:
  "int j \<notin> set js \<Longrightarrow> \<forall>q\<in>set js. 0 \<le> q \<Longrightarrow> index_put a js vs ! j = a ! j"
proof (induction a js vs rule: index_put.induct)
  case (1 a q js v vs)
  then have "nat q \<noteq> j" by auto
  with 1 show ?case by simp
qed simp_all

lemma index_put_nth:
  "length js = length vs \<Longrightarrow> distinct js \<Longrightarrow> \<forall>q\<in>set js. 0 \<le> q \<and> nat q < length a \<Longrightarrow>
   k < length js \<Longrightarrow> index_put a js vs ! nat (js ! k) = vs ! k"
proof (induction a js vs arbitrary: k rule: index_put.induct)
  case (1 a q js v vs)
  show ?case
  proof (cases k)
    case 0
    have "int (nat q) \<notin> set js" using 1(3,4) by auto
    moreover have "\<forall>q\<in>set js. 0 \<le> q" using 1(4) by auto
    ultimately have "index_put (a[nat q := v]) js vs ! nat q = (a[nat q := v]) ! nat q"
      by (rule index_put_other)
    with 0 1(4) show ?thesis by simp
  next
    case (Suc k')
    with 1 show ?thesis by simp
  qed
qed simp_all

lemma dilate_size:
  assumes "1 \<le> n"
  shows "n + (n - 1) * (2 ^ i - 1) = (n - 1) * 2 ^ i + (1::nat)"
proof -
  obtain m where m: "n = Suc m" using assms by (cases n) auto
  obtain p where p: "(2::nat) ^ i = Suc p" by (cases "(2::nat) ^ i") auto
  show ?thesis unfolding m p by simp
qed

lemma linspace_dilate:
  assumes "2 \<le> n"
  shows "linspace_int 0 (real ((n - 1) * 2 ^ i + 1) - 1) n = map (\<lambda>k. int (k * 2 ^ i)) [0..<n]"
proof -
  have sz: "real ((n - 1) * 2 ^ i + 1) - 1 = real (n - 1) * 2 ^ i" by simp
  have nz: "real (n - 1) \<noteq> 0" using assms by simp
  have "(if k = n - 1 then \<lfloor>real (n - 1) * 2 ^ i\<rfloor>
         else \<lfloor>0 + real k * ((real (n - 1) * 2 ^ i - 0) / real (n - 1))\<rfloor>) = int (k * 2 ^ i)" for k
  proof -
    have a: "\<lfloor>real (n - 1) * 2 ^ i\<rfloor> = int ((n - 1) * 2 ^ i)"
      by (metis floor_of_nat of_nat_mult of_nat_numeral of_nat_power)
    have b: "\<lfloor>real k * 2 ^ i\<rfloor> = int (k * 2 ^ i)"
      by (metis floor_of_nat of_nat_mult of_nat_numeral of_nat_power)
    show ?thesis using nz a b by simp
  qed
  then show ?thesis
    using assms unfolding linspace_int_def sz by (auto simp del: of_nat_mult of_nat_power)
qed

lemma dilate_eq:
  assumes "2 \<le> length h"
  shows "dilate h i = index_put (replicate ((length h - 1) * 2 ^ i + 1) 0)
                        (map (\<lambda>k. int (k * 2 ^ i)) [0..<length h]) h"
proof -
  have "1 \<le> length h" using assms by simp
  then show ?thesis
    unfolding dilate_def Let_def length_replicate
    by (simp only: dilate_size linspace_dilate [OF assms])
qed

lemma length_dilate:
  assumes "2 \<le> length h"
  shows "length (dilate h i) = (length h - 1) * 2 ^ i + 1"
  by (simp add: dilate_eq [OF assms] length_index_put)

lemma dilate_nth:
  assumes "2 \<le> length h" and "j < (length h - 1) * 2 ^ i + 1"
  shows "dilate h i ! j = (if 2 ^ i dvd j then h ! (j div 2 ^ i) else 0)"
proof -
  let ?js = "map (\<lambda>k. int (k * 2 ^ i)) [0..<length h]"
  let ?a = "replicate ((length h - 1) * 2 ^ i + 1) (0::real)"
  have len: "length ?js = length h" by simp
  have inj: "inj_on (\<lambda>k. int (k * 2 ^ i)) (set [0..<length h])"
    by (auto simp: inj_on_def)
  have dist: "distinct ?js" using inj by (simp add: distinct_map)
  have rng: "\<forall>q\<in>set ?js. 0 \<le> q \<and> nat q < length ?a"
  proof
    fix q assume "q \<in> set ?js"
    then obtain k where k: "k < length h" "q = int (k * 2 ^ i)" by auto
    then have "k \<le> length h - 1" by simp
    then have "k * 2 ^ i \<le> (length h - 1) * 2 ^ i" by (rule mult_le_mono1)
    then have "k * 2 ^ i < (length h - 1) * 2 ^ i + 1" by linarith
    with k show "0 \<le> q \<and> nat q < length ?a" by (simp del: of_nat_mult of_nat_power)
  qed
  show ?thesis
  proof (cases "2 ^ i dvd j")
    case True
    then obtain k where k: "j = k * 2 ^ i" by (auto simp: dvd_def mult.commute)
    have "k * 2 ^ i < (length h - 1) * 2 ^ i + 1" using assms(2) k by simp
    then have "k * 2 ^ i \<le> (length h - 1) * 2 ^ i" by linarith
    then have "k \<le> length h - 1" by simp
    then have kl: "k < length h" using assms(1) by simp
    have "index_put ?a ?js h ! nat (?js ! k) = h ! k"
      using len dist rng kl by (intro index_put_nth) simp_all
    moreover have "nat (?js ! k) = j" using kl k by (simp del: of_nat_mult of_nat_power)
    moreover have "j div 2 ^ i = k" using k by simp
    ultimately show ?thesis using True by (simp add: dilate_eq [OF assms(1)])
  next
    case False
    have "int j \<notin> set ?js"
    proof
      assume "int j \<in> set ?js"
      then obtain k where "int j = int (k * 2 ^ i)" by auto
      then have "j = k * 2 ^ i" by (simp only: of_nat_eq_iff)
      with False show False by simp
    qed
    moreover have "\<forall>q\<in>set ?js. 0 \<le> q" by auto
    ultimately have "index_put ?a ?js h ! j = ?a ! j" by (rule index_put_other)
    also have "?a ! j = 0" using assms(2) by (rule nth_replicate)
    finally show ?thesis using False by (simp only: dilate_eq [OF assms(1)] if_False)
  qed
qed

text \<open>
  Claim C10.  For a base kernel \<open>h\<close> of \<open>n\<close> taps (\<open>n \<ge> 2\<close>: the B-spline kernel has 5, the
  linear kernel 3) and every scale index \<open>i\<close>, the dilated kernel has length
  \<open>n + (n - 1) * (2 ^ i - 1)\<close>; tap \<open>k\<close> of \<open>h\<close> sits at position \<open>k * 2 ^ i\<close>, so the first
  tap is at position 0 and the last tap at the last position; every other position holds 0.
  At scale 1 the B-spline kernel has length 9 and its taps at positions 0, 2, 4, 6, 8.
\<close>

theorem dilate_length_and_taps:
  assumes "2 \<le> length h"
  shows "length (dilate h i) = length h + (length h - 1) * (2 ^ i - 1) \<and>
         (\<forall>k<length h. dilate h i ! (k * 2 ^ i) = h ! k) \<and>
         (length h - 1) * 2 ^ i = length (dilate h i) - 1 \<and>
         (\<forall>j<length (dilate h i). \<not> 2 ^ i dvd j \<longrightarrow> dilate h i ! j = 0) \<and>
         dilate bspline 1 = [1/16, 0, 1/4, 0, 3/8, 0, 1/4, 0, 1/16]"
proof -
  have one: "1 \<le> length h" using assms by simp
  have len: "length (dilate h i) = (length h - 1) * 2 ^ i + 1"
    by (rule length_dilate [OF assms])
  have taps: "dilate h i ! (k * 2 ^ i) = h ! k" if "k < length h" for k
  proof -
    have "k \<le> length h - 1" using that by simp
    then have "k * 2 ^ i \<le> (length h - 1) * 2 ^ i" by (rule mult_le_mono1)
    then have "k * 2 ^ i < (length h - 1) * 2 ^ i + 1" by linarith
    from dilate_nth [OF assms this] show ?thesis by simp
  qed
  have zeros: "dilate h i ! j = 0" if "j < length (dilate h i)" "\<not> 2 ^ i dvd j" for j
    using dilate_nth [OF assms, of j i] that len by simp
  have example: "dilate bspline 1 = [1/16, 0, 1/4, 0, 3/8, 0, 1/4, 0, 1/16]"
    by (simp add: bspline_def dilate_def linspace_int_def upt_rec)
  show ?thesis
    using len taps zeros dilate_size [OF one, of i] example by simp
qed

theorem dilate_length_and_taps_witness:
  "2 \<le> length linear \<and> length (dilate linear 2) = 9 \<and>
   dilate linear 2 ! 0 = 1/4 \<and> dilate linear 2 ! 4 = 1/2 \<and> dilate linear 2 ! 8 = 1/4 \<and>
   dilate linear 2 ! 3 = 0"
proof -
  have l: "length linear = 3" by (simp add: linear_def)
  have h: "2 \<le> length linear" by (simp add: l)
  from dilate_length_and_taps [OF h, of 2]
  have len: "length (dilate linear 2) = 9"
    and taps: "\<And>k. k < 3 \<Longrightarrow> dilate linear 2 ! (k * 4) = linear ! k"
    and zeros: "\<And>j. j < 9 \<Longrightarrow> \<not> 4 dvd j \<Longrightarrow> dilate linear 2 ! j = 0"
    by (simp_all add: l)
  have "dilate linear 2 ! 0 = linear ! 0" using taps [of 0] by simp
  also have "linear ! 0 = 1/4" by (simp add: linear_def)
  finally have t0: "dilate linear 2 ! 0 = 1/4" .
  have "dilate linear 2 ! 4 = linear ! 1" using taps [of 1] by simp
  also have "linear ! 1 = 1/2" by (simp add: linear_def)
  finally have t1: "dilate linear 2 ! 4 = 1/2" .
  have "dilate linear 2 ! 8 = linear ! 2" using taps [of 2] by simp
  also have "linear ! 2 = 1/4" by (simp add: linear_def)
  finally have t2: "dilate linear 2 ! 8 = 1/4" .
  have z: "dilate linear 2 ! 3 = 0" using zeros [of 3] by simp
  from h len t0 t1 t2 z show ?thesis by (intro conjI)
qed

section \<open>Shapes and pixels\<close>

lemma has_shapeD:
  assumes "has_shape n1 n2 a"
  shows "length a = n1" and "y < n1 \<Longrightarrow> length (a ! y) = n2"
  using assms by (auto simp: has_shape_def list_all_length)

lemma has_shape_ncols:
  assumes "has_shape n1 n2 a" and "0 < n1"
  shows "ncols a = n2"
proof -
  obtain r rs where a: "a = r # rs" using assms by (cases a) (auto simp: has_shape_def)
  with assms(1) show ?thesis by (simp add: ncols_def has_shape_def)
qed

lemma table_shape: "has_shape n1 n2 (map (\<lambda>y. map (f y) [0..<n2]) [0..<n1])"
  by (simp add: has_shape_def list_all_iff)

lemma table_nth:
  "y < n1 \<Longrightarrow> x < n2 \<Longrightarrow> map (\<lambda>y. map (f y) [0..<n2]) [0..<n1] ! y ! x = f y x"
  by simp

lemma has_shape_eqI:
  assumes a: "has_shape n1 n2 a" and b: "has_shape n1 n2 b"
    and eq: "\<And>y x. y < n1 \<Longrightarrow> x < n2 \<Longrightarrow> a ! y ! x = b ! y ! x"
  shows "a = b"
proof (rule nth_equalityI)
  show "length a = length b" using a b by (simp add: has_shapeD(1))
next
  fix y assume "y < length a"
  then have y: "y < n1" using a by (simp add: has_shapeD(1))
  show "a ! y = b ! y"
  proof (rule nth_equalityI)
    show "length (a ! y) = length (b ! y)" using a b y by (simp add: has_shapeD(2))
  next
    fix x assume "x < length (a ! y)"
    then have "x < n2" using a y by (simp add: has_shapeD(2))
    then show "a ! y ! x = b ! y ! x" using y by (rule eq [rotated])
  qed
qed

lemma table_id:
  assumes "has_shape n1 n2 a"
  shows "map (\<lambda>y. map (\<lambda>x. a ! y ! x) [0..<n2]) [0..<n1] = a"
  by (rule has_shape_eqI [OF table_shape assms]) simp

lemma sub2_shape:
  assumes "has_shape n1 n2 a" and "has_shape n1 n2 b"
  shows "has_shape n1 n2 (sub2 a b)"
  using assms
  by (auto simp: has_shape_def sub2_def list_all_length)

lemma add2_shape:
  assumes "has_shape n1 n2 a" and "has_shape n1 n2 b"
  shows "has_shape n1 n2 (add2 a b)"
  using assms
  by (auto simp: has_shape_def add2_def list_all_length)

lemma sub2_nth:
  assumes "has_shape n1 n2 a" and "has_shape n1 n2 b" and "y < n1" and "x < n2"
  shows "sub2 a b ! y ! x = a ! y ! x - b ! y ! x"
  using assms by (simp add: sub2_def has_shapeD)

lemma add2_nth:
  assumes "has_shape n1 n2 a" and "has_shape n1 n2 b" and "y < n1" and "x < n2"
  shows "add2 a b ! y ! x = a ! y ! x + b ! y ! x"
  using assms by (simp add: add2_def has_shapeD)

lemma add2_sub2_cancel:
  assumes "has_shape n1 n2 a" and "has_shape n1 n2 s"
  shows "add2 s (sub2 a s) = a"
proof (rule has_shape_eqI [OF _ assms(1)])
  show "has_shape n1 n2 (add2 s (sub2 a s))"
    by (intro add2_shape sub2_shape assms)
next
  fix y x assume y: "y < n1" and x: "x < n2"
  have "add2 s (sub2 a s) ! y ! x = s ! y ! x + sub2 a s ! y ! x"
    by (rule add2_nth [OF assms(2) sub2_shape [OF assms] y x])
  also have "sub2 a s ! y ! x = a ! y ! x - s ! y ! x"
    by (rule sub2_nth [OF assms y x])
  finally show "add2 s (sub2 a s) ! y ! x = a ! y ! x" by simp
qed

lemma convolve1d_shape:
  assumes "has_shape n1 n2 c"
  shows "has_shape n1 n2 (convolve1d dt c w axis m)"
proof (cases "n1 = 0")
  case True
  with assms show ?thesis by (simp add: convolve1d_def has_shape_def Let_def)
next
  case False
  then have "ncols c = n2" using assms by (simp add: has_shape_ncols)
  moreover have "length c = n1" using assms by (rule has_shapeD(1))
  ultimately show ?thesis
    unfolding convolve1d_def Let_def by (simp add: table_shape)
qed

lemma convolve2d_shape:
  assumes "has_shape n1 n2 c"
  shows "has_shape n1 n2 (convolve2d_same_symm c H)"
proof (cases "n1 = 0")
  case True
  with assms show ?thesis by (simp add: convolve2d_same_symm_def has_shape_def Let_def)
next
  case False
  then have "ncols c = n2" using assms by (simp add: has_shape_ncols)
  moreover have "length c = n1" using assms by (rule has_shapeD(1))
  ultimately show ?thesis
    unfolding convolve2d_same_symm_def Let_def by (simp add: table_shape)
qed

lemma smooth_shape:
  assumes "has_shape n1 n2 c"
  shows "has_shape n1 n2 (smooth dt convol2d c w)"
  unfolding smooth_def Let_def
  by (simp add: convolve1d_shape convolve2d_shape assms)

lemma coarse_shape:
  assumes "has_shape n1 n2 img"
  shows "has_shape n1 n2 (coarse convol2d h img i)"
  by (induction i) (simp_all add: assms smooth_shape)

lemma detail_shape:
  assumes "has_shape n1 n2 img"
  shows "has_shape n1 n2 (detail second convol2d h img i)"
  unfolding detail_def Let_def
  by (simp add: sub2_shape smooth_shape coarse_shape [OF assms] del: coarse.simps)

lemma broadcast_to_same:
  assumes "has_shape n1 n2 v"
  shows "broadcast_to n1 n2 n1 n2 v = Inr v"
proof -
  have "map (\<lambda>y. map (\<lambda>x. v ! (if n1 = 1 then 0 else y) ! (if n2 = 1 then 0 else x))
                         [0..<n2]) [0..<n1] = v"
    by (rule has_shape_eqI [OF table_shape assms(1)]) auto
  then show ?thesis by (simp add: broadcast_to_def)
qed


lemma setitem_same:
  assumes "has_shape n1 n2 v" and "i < length wave"
  shows "setitem wave i n1 n2 n1 n2 v = Inr (wave[i := v])"
  using assms by (simp add: setitem_def broadcast_to_same)


section \<open>The forward loop\<close>

lemma ilog2_bounds: "0 < n \<Longrightarrow> 2 ^ ilog2 n \<le> n \<and> n < 2 ^ Suc (ilog2 n)"
proof (induction n rule: ilog2.induct)
  case (1 n)
  show ?case
  proof (cases "n < 2")
    case True
    with 1(2) show ?thesis by (simp add: ilog2.simps [of n])
  next
    case False
    then have "0 < n div 2" by simp
    with 1(1) False have "2 ^ ilog2 (n div 2) \<le> n div 2 \<and> n div 2 < 2 ^ Suc (ilog2 (n div 2))"
      by simp
    moreover have "ilog2 n = Suc (ilog2 (n div 2))" using False by (simp add: ilog2.simps [of n])
    ultimately show ?thesis by simp linarith
  qed
qed

lemma ilog2_floor_log:
  assumes "0 < n"
  shows "\<lfloor>log 2 (real n)\<rfloor> = int (ilog2 n)"
  using ilog2_bounds [OF assms] floor_log_nat_eq_if [of 2 "ilog2 n" n] by simp

lemma ilog2_pos: "2 \<le> n \<Longrightarrow> 0 < ilog2 n"
  by (simp add: ilog2.simps [of n])

lemma transform_step_coarse:
  assumes "has_shape n n img" and "i < length wave"
  shows "transform_step self h cv n n n n i (Float64, coarse cv h img i, wave) =
         Inr (Float64, coarse cv h img (Suc i), wave[i := detail (second_gen self) cv h img i])"
proof -
  let ?c = "coarse cv h img i"
  let ?s = "smooth Float64 cv ?c (dilate h i)"
  have "has_shape n n (detail (second_gen self) cv h img i)"
    by (rule detail_shape [OF assms(1)])
  from setitem_same [OF this assms(2)]
  have put: "setitem wave i n n n n (detail (second_gen self) cv h img i) =
        Inr (wave[i := detail (second_gen self) cv h img i])" .
  have dt: "smooth_dtype Float64 cv = Float64" by (simp add: smooth_dtype_def)
  have suc: "coarse cv h img (Suc i) = ?s" by simp
  show ?thesis
  proof (cases "second_gen self")
    case True
    then have d: "detail (second_gen self) cv h img i =
                  sub2 ?c (smooth Float64 cv ?s (dilate h i))"
      by (simp add: detail_def Let_def)
    show ?thesis
      unfolding transform_step_def Let_def prod.case dt suc
      using put unfolding d by (simp only: True if_True sum.case)
  next
    case False
    then have d: "detail (second_gen self) cv h img i = sub2 ?c ?s"
      by (simp add: detail_def Let_def)
    show ?thesis
      unfolding transform_step_def Let_def prod.case dt suc
      using put unfolding d by (simp only: False if_False sum.case)
  qed
qed

lemma transform_loop:
  assumes "has_shape n n img"
  shows "k \<le> L \<Longrightarrow> L \<le> length wave \<Longrightarrow>
         for_range (transform_step self h cv n n n n) [k..<L] (Float64, coarse cv h img k, wave) =
         Inr (Float64, coarse cv h img L,
              map (\<lambda>i. if k \<le> i \<and> i < L then detail (second_gen self) cv h img i else wave ! i)
                  [0..<length wave])"
proof (induction "L - k" arbitrary: k wave)
  case 0
  then have "k = L" by simp
  moreover have "map (\<lambda>i. if L \<le> i \<and> i < L then detail (second_gen self) cv h img i
                          else wave ! i) [0..<length wave] = wave"
    by (rule nth_equalityI) auto
  ultimately show ?case by simp
next
  case (Suc d)
  then have kL: "k < L" and d: "d = L - Suc k" by simp_all
  let ?w = "wave[k := detail (second_gen self) cv h img k]"
  have step: "transform_step self h cv n n n n k (Float64, coarse cv h img k, wave) =
              Inr (Float64, coarse cv h img (Suc k), ?w)"
    using kL Suc.prems(2) by (intro transform_step_coarse assms) simp
  have "for_range (transform_step self h cv n n n n) [Suc k..<L]
          (Float64, coarse cv h img (Suc k), ?w) =
        Inr (Float64, coarse cv h img L,
             map (\<lambda>i. if Suc k \<le> i \<and> i < L then detail (second_gen self) cv h img i else ?w ! i)
                 [0..<length ?w])"
    using kL Suc.prems(2) by (intro Suc.hyps(1) d) simp_all
  moreover have
    "map (\<lambda>i. if Suc k \<le> i \<and> i < L then detail (second_gen self) cv h img i else ?w ! i)
         [0..<length ?w] =
     map (\<lambda>i. if k \<le> i \<and> i < L then detail (second_gen self) cv h img i else wave ! i)
         [0..<length wave]"
  proof (rule nth_equalityI)
    fix i assume "i < length (map (\<lambda>i. if Suc k \<le> i \<and> i < L
                     then detail (second_gen self) cv h img i else ?w ! i) [0..<length ?w])"
    then have i: "i < length wave" by simp
    show "map (\<lambda>i. if Suc k \<le> i \<and> i < L then detail (second_gen self) cv h img i
                           else ?w ! i) [0..<length ?w] ! i =
               map (\<lambda>i. if k \<le> i \<and> i < L then detail (second_gen self) cv h img i
                           else wave ! i) [0..<length wave] ! i"
    proof (cases "i = k")
      case True
      with i kL show ?thesis by simp
    next
      case False
      then have "(Suc k \<le> i) = (k \<le> i)" by auto
      with False i show ?thesis by simp
    qed
  qed simp
  ultimately show ?case
    using kL step by (simp add: upt_conv_Cons del: coarse.simps)
qed

lemma cube_after_loop:
  "(map (\<lambda>i. if 0 \<le> i \<and> i < L then f i else zeros3 (Suc L) n1 n2 ! i)
        [0..<length (zeros3 (Suc L) n1 n2)]) [L := c] = map f [0..<L] @ [c]"
  by (rule nth_equalityI) (auto simp: zeros3_def nth_append nth_list_update)

lemma transform_slit_square:
  assumes sh: "has_shape n n img" and n: "2 \<le> n" and ns: "2 \<le> n_scales"
    and rng: "\<not> (2 ^ 63 \<le> n_scales - 1 \<and> n_scales - 1 < 2 ^ 64)"
  shows "transform_slit self (Image2 Float64 n n img) n_scales Filter cv =
         (if n_scales - 1 > int (ilog2 n) then [Warning_lvl_set_to (int (ilog2 n))] else [],
          Inr (Cube3 Float64 (Suc (nat (min (n_scales - 1) (int (ilog2 n))))) n n
                 (map (detail (second_gen self) cv (base_kernel Filter) img)
                      [0..<nat (min (n_scales - 1) (int (ilog2 n)))]
                  @ [coarse cv (base_kernel Filter) img
                       (nat (min (n_scales - 1) (int (ilog2 n))))])))"
proof -
  let ?h = "base_kernel Filter"
  let ?L = "nat (min (n_scales - 1) (int (ilog2 n)))"
  let ?W = "zeros3 (Suc ?L) n n"
  have n0: "0 < n" using n by simp
  have l2: "int_log2 n = Inr (int (ilog2 n))" using n0 by (simp add: int_log2_def)
  have Lpos: "0 < ?L" using ilog2_pos [OF n] ns by simp
  have lenW: "length ?W = Suc ?L" by (simp add: zeros3_def)
  have loop: "for_range (transform_step self ?h cv n n n n) [0..<?L] (Float64, img, ?W) =
              Inr (Float64, coarse cv ?h img ?L,
                   map (\<lambda>i. if 0 \<le> i \<and> i < ?L then detail (second_gen self) cv ?h img i else ?W ! i)
                       [0..<length ?W])"
    using transform_loop [OF sh, of 0 ?L ?W self ?h cv] lenW by simp
  have last: "setitem (map (\<lambda>i. if 0 \<le> i \<and> i < ?L then detail (second_gen self) cv ?h img i else ?W ! i)
                       [0..<length ?W]) ?L n n n n (coarse cv ?h img ?L) =
              Inr (map (detail (second_gen self) cv ?h img) [0..<?L] @ [coarse cv ?h img ?L])"
  proof -
    let ?M = "map (\<lambda>i. if 0 \<le> i \<and> i < ?L then detail (second_gen self) cv ?h img i else ?W ! i)
                  [0..<length ?W]"
    have "?L < length ?M" using lenW by simp
    from setitem_same [OF coarse_shape [OF sh] this]
    have "setitem ?M ?L n n n n (coarse cv ?h img ?L) = Inr (?M[?L := coarse cv ?h img ?L])" .
    then show ?thesis by (simp only: cube_after_loop)
  qed
  have lvl: "(if n_scales - 1 > min (n_scales - 1) (int (ilog2 n))
              then min (n_scales - 1) (int (ilog2 n)) else n_scales - 1) =
             min (n_scales - 1) (int (ilog2 n))"
    by simp
  have nat1: "nat (min (n_scales - 1) (int (ilog2 n)) + 1) = Suc ?L"
    using Lpos by linarith
  show ?thesis
    unfolding transform_slit_def Let_def image.case l2 sum.case if_not_P [OF rng] lvl nat1
    using Lpos loop last
    by (simp del: coarse.simps)
qed

subsection \<open>Whatever the dtype and the shape\<close>







section \<open>First generation: the sum of the planes\<close>

lemma telescope_upt:
  fixes f :: "nat \<Rightarrow> real"
  shows "(\<Sum>i\<leftarrow>[0..<L]. f i - f (Suc i)) + f L = f 0"
  by (induction L) simp_all

lemma first_gen_planes_sum:
  assumes sh: "has_shape n n img"
  shows "sum_axis0 n n (map (detail False cv h img) [0..<L] @ [coarse cv h img L]) = img"
proof -
  let ?wave = "map (detail False cv h img) [0..<L] @ [coarse cv h img L]"
  have pix: "(\<Sum>p\<leftarrow>?wave. p ! y ! x) = img ! y ! x" if y: "y < n" and x: "x < n" for y x
  proof -
    have d: "detail False cv h img i ! y ! x =
             coarse cv h img i ! y ! x - coarse cv h img (Suc i) ! y ! x" for i
      unfolding detail_def Let_def if_False
      by (rule sub2_nth [OF coarse_shape [OF sh] coarse_shape [OF sh] y x])
    have "(\<Sum>p\<leftarrow>?wave. p ! y ! x) =
          (\<Sum>i\<leftarrow>[0..<L]. detail False cv h img i ! y ! x) + coarse cv h img L ! y ! x"
      by (simp add: comp_def del: coarse.simps)
    also have "\<dots> = (\<Sum>i\<leftarrow>[0..<L]. coarse cv h img i ! y ! x - coarse cv h img (Suc i) ! y ! x)
                    + coarse cv h img L ! y ! x"
      by (simp only: d)
    also have "\<dots> = coarse cv h img 0 ! y ! x"
      by (rule telescope_upt)
    finally show ?thesis by simp
  qed
  have "sum_axis0 n n ?wave = map (\<lambda>y. map (\<lambda>x. \<Sum>p\<leftarrow>?wave. p ! y ! x) [0..<n]) [0..<n]"
    by (simp only: sum_axis0_def)
  also have "\<dots> = img"
  proof (rule has_shape_eqI [OF table_shape sh])
    fix y x assume y: "y < n" and x: "x < n"
    have "map (\<lambda>y. map (\<lambda>x. \<Sum>p\<leftarrow>?wave. p ! y ! x) [0..<n]) [0..<n] ! y ! x =
          (\<Sum>p\<leftarrow>?wave. p ! y ! x)"
      by (rule table_nth [OF y x])
    also have "\<dots> = img ! y ! x" by (rule pix [OF y x])
    finally show "map (\<lambda>y. map (\<lambda>x. \<Sum>p\<leftarrow>?wave. p ! y ! x) [0..<n]) [0..<n] ! y ! x =
                  img ! y ! x" .
  qed
  finally show ?thesis .
qed

text \<open>
  On a square image of floats the code does what the claim says: for side at least 2 and
  \<open>n_scales \<ge> 2\<close> (and \<open>n_scales - 1\<close> outside the range \<open>2\<^sup>6\<^sup>3 \<dots> 2\<^sup>6\<^sup>4 - 1\<close> in which
  \<^verbatim>\<open>np.min\<close> returns a float), without pysap, in the first-generation convention with fast
  inverse, the decomposition returns the planes \<open>w\<^sub>i = c\<^sub>i - c\<^sub>i\<^sub>+\<^sub>1\<close> for \<open>i < L\<close> followed by \<open>c\<^sub>L\<close>,
  where \<open>L\<close> is \<open>n_scales - 1\<close> capped at \<open>floor (log2 side)\<close>, and the reconstruction of that
  cube is the image itself (exact arithmetic).
\<close>

lemma first_gen_square_roundtrip:
  assumes "\<not> use_pysap self" and "fast_inverse self" and "\<not> second_gen self"
    and "has_shape n n img" and "2 \<le> n" and "2 \<le> n_scales"
    and "\<not> (2 ^ 63 \<le> n_scales - 1 \<and> n_scales - 1 < 2 ^ 64)"
  shows "\<exists>out wave.
           decomposition self (Image2 Float64 n n img) n_scales =
             (out, Inr (Cube3 Float64 (length wave) n n wave)) \<and>
           wave = map (\<lambda>i. sub2 (coarse 0 bspline img i) (coarse 0 bspline img (Suc i)))
                      [0..<nat (min (n_scales - 1) \<lfloor>log 2 (real n)\<rfloor>)]
                  @ [coarse 0 bspline img (nat (min (n_scales - 1) \<lfloor>log 2 (real n)\<rfloor>))] \<and>
           function_starlets self (Cube3 Float64 (length wave) n n wave) n_scales =
             Inr (Image2 Float64 n n img)"
proof -
  let ?L = "nat (min (n_scales - 1) (int (ilog2 n)))"
  let ?wave = "map (detail False 0 bspline img) [0..<?L] @ [coarse 0 bspline img ?L]"
  have n0: "0 < n" using assms(5) by simp
  have fl: "\<lfloor>log 2 (real n)\<rfloor> = int (ilog2 n)" by (rule ilog2_floor_log [OF n0])
  have len: "length ?wave = Suc ?L" by simp
  have dec: "decomposition self (Image2 Float64 n n img) n_scales =
             (if n_scales - 1 > int (ilog2 n) then [Warning_lvl_set_to (int (ilog2 n))] else [],
              Inr (Cube3 Float64 (length ?wave) n n ?wave))"
    unfolding len
    using transform_slit_square [OF assms(4,5,6,7), of self "''Bspline''" 0] assms(1,3)
    by (simp add: decomposition_def base_kernel_def del: coarse.simps)
  have det: "detail False 0 bspline img =
             (\<lambda>i. sub2 (coarse 0 bspline img i) (coarse 0 bspline img (Suc i)))"
    by (simp add: detail_def fun_eq_iff del: coarse.simps)
  have "function_starlets self (Cube3 Float64 (length ?wave) n n ?wave) n_scales =
        Inr (Image2 Float64 n n (sum_axis0 n n ?wave))"
    using assms(1,2,3) by (simp add: function_starlets_def inverse_transform_slit_def)
  also have "sum_axis0 n n ?wave = img"
    by (rule first_gen_planes_sum [OF assms(4)])
  finally have "function_starlets self (Cube3 Float64 (length ?wave) n n ?wave) n_scales =
                Inr (Image2 Float64 n n img)" .
  with dec show ?thesis
    unfolding fl det by blast
qed

lemma first_gen_square_roundtrip_example:
  "\<exists>out wave. decomposition (init None 1 True False False)
                 (Image2 Float64 2 2 [[1, 2], [3, 4]]) 3 =
                 (out, Inr (Cube3 Float64 (length wave) 2 2 wave)) \<and>
               function_starlets (init None 1 True False False)
                 (Cube3 Float64 (length wave) 2 2 wave) 3 =
                 Inr (Image2 Float64 2 2 [[1, 2], [3, 4]])"
proof -
  have h: "\<not> use_pysap (init None 1 True False False)" "fast_inverse (init None 1 True False False)"
    "\<not> second_gen (init None 1 True False False)" "has_shape 2 2 [[1, 2], [3, 4]]"
    "(2::nat) \<le> 2" "(2::int) \<le> 3" "\<not> ((2::int) ^ 63 \<le> 3 - 1 \<and> (3::int) - 1 < 2 ^ 64)"
    by (simp_all add: init_def has_shape_def)
  from first_gen_square_roundtrip [OF h] show ?thesis by blast
qed

text \<open>
  Claim C1, on the code.  The claim: for every 2D image \<open>I\<close> and every \<open>n_scales \<ge> 2\<close>, in the
  first-generation convention with fast inverse, reconstructing the decomposition of \<open>I\<close>
  returns \<open>I\<close>.  The code reads the image's shape into \<^verbatim>\<open>sh\<close> and then sets \<^verbatim>\<open>n1 = sh[1]\<close>
  beside \<^verbatim>\<open>n2 = sh[1]\<close> (lines 111-112), so the cube is allocated with planes of
  \<^verbatim>\<open>sh[1] x sh[1]\<close> pixels whatever the number of rows.  On the image of 2 rows and 3 columns
  \<open>[[1, 2, 3], [4, 5, 6]]\<close> with \<open>n_scales = 2\<close> the first detail plane, of shape \<open>(2, 3)\<close>, is
  assigned to a plane of shape \<open>(3, 3)\<close>: the decomposition raises \<^verbatim>\<open>ValueError\<close> and there is
  nothing to reconstruct.
\<close>

theorem first_gen_roundtrip_raises:
  "decomposition (init None 1 True False False) (Image2 Float64 2 3 [[1, 2, 3], [4, 5, 6]]) 2
   = ([], Inl ValueError)"
  by code_simp

section \<open>Second generation: the recursive reconstruction\<close>

lemma has_shape_Cons:
  "has_shape n1 n2 (r # rs) \<longleftrightarrow> (\<exists>m. n1 = Suc m \<and> length r = n2 \<and> has_shape m n2 rs)"
  by (auto simp: has_shape_def)

lemma concat_rows_length: "has_shape n1 n2 a \<Longrightarrow> length (concat a) = n1 * n2"
  by (induction a arbitrary: n1) (auto simp: has_shape_Cons, simp add: has_shape_def)

lemma rows_of_concat:
  "has_shape n1 n2 a \<Longrightarrow> map (\<lambda>y. take n2 (drop (y * n2) (concat a))) [0..<n1] = a"
proof (induction a arbitrary: n1)
  case Nil
  then show ?case by (simp add: has_shape_def)
next
  case (Cons r rs)
  then obtain m where m: "n1 = Suc m" "length r = n2" "has_shape m n2 rs"
    by (auto simp: has_shape_Cons)
  have "map (\<lambda>y. take n2 (drop (y * n2) (concat (r # rs)))) [0..<Suc m] =
        take n2 (r @ concat rs) # map (\<lambda>y. take n2 (drop (Suc y * n2) (r @ concat rs))) [0..<m]"
    by (simp add: upt_conv_Cons map_Suc_upt [symmetric] del: upt_Suc)
  also have "take n2 (r @ concat rs) = r" using m(2) by simp
  also have "map (\<lambda>y. take n2 (drop (Suc y * n2) (r @ concat rs))) [0..<m] =
             map (\<lambda>y. take n2 (drop (y * n2) (concat rs))) [0..<m]"
    using m(2) by (simp add: add.commute)
  also have "\<dots> = rs" by (rule Cons.IH [OF m(3)])
  finally show ?case using m(1) by simp
qed

lemma reshape_same:
  assumes "has_shape n1 n2 a"
  shows "reshape a n1 n2 = Inr a"
  using assms by (simp add: reshape_def concat_rows_length rows_of_concat)

lemma inverse_loop:
  assumes sh: "has_shape n n img"
    and wave_def: "wave = map (detail True cv h img) [0..<L] @ [coarse cv h img L]"
  shows "j \<le> L \<Longrightarrow>
         fold (\<lambda>i (d, cJ). (smooth_dtype d cv,
                             add2 (smooth d cv cJ (dilate h (Suc L - 1 - i)))
                                  (wave ! (Suc L - 1 - i))))
              [Suc j..<Suc L] (Float64, coarse cv h img (L - j)) = (Float64, img)"
proof (induction "L - j" arbitrary: j)
  case 0
  then show ?case by simp
next
  case (Suc d)
  then have jL: "j < L" and d: "d = L - Suc j" by simp_all
  let ?i = "L - Suc j"
  let ?f = "\<lambda>i (d, cJ). (smooth_dtype d cv,
                           add2 (smooth d cv cJ (dilate h (Suc L - 1 - i)))
                                (wave ! (Suc L - 1 - i)))"
  have suc: "Suc ?i = L - j" using jL by simp
  have dt: "smooth_dtype Float64 cv = Float64" by (simp add: smooth_dtype_def)
  have "wave ! ?i = detail True cv h img ?i"
    using jL by (simp add: wave_def nth_append)
  also have "\<dots> = sub2 (coarse cv h img ?i)
                     (smooth Float64 cv (coarse cv h img (L - j)) (dilate h ?i))"
    by (simp add: detail_def suc [symmetric] del: coarse.simps)
  finally have w: "wave ! ?i =
      sub2 (coarse cv h img ?i) (smooth Float64 cv (coarse cv h img (L - j)) (dilate h ?i))" .
  have step: "add2 (smooth Float64 cv (coarse cv h img (L - j)) (dilate h ?i)) (wave ! ?i) =
              coarse cv h img ?i"
    unfolding w
    by (rule add2_sub2_cancel [OF coarse_shape [OF sh] smooth_shape [OF coarse_shape [OF sh]]])
  have one: "?f (Suc j) (Float64, coarse cv h img (L - j)) = (Float64, coarse cv h img ?i)"
    using step by (simp add: dt del: coarse.simps)
  have rest: "fold ?f [Suc (Suc j)..<Suc L] (Float64, coarse cv h img (L - Suc j)) =
              (Float64, img)"
    using jL by (intro Suc.hyps(1) d) simp
  have "[Suc j..<Suc L] = Suc j # [Suc (Suc j)..<Suc L]"
    using jL by (simp add: upt_conv_Cons del: upt_Suc)
  then have "fold ?f [Suc j..<Suc L] (Float64, coarse cv h img (L - j)) =
             fold ?f [Suc (Suc j)..<Suc L] (?f (Suc j) (Float64, coarse cv h img (L - j)))"
    by (simp only: fold_simps)
  also have "\<dots> = (Float64, img)" unfolding one by (rule rest)
  finally show ?case .
qed

lemma inverse_transform_slit_recursive:
  assumes sh: "has_shape n n img" and path: "\<not> (fast_inverse self \<and> \<not> second_gen self)"
  shows "inverse_transform_slit self
           (Cube3 Float64 (Suc L) n n
              (map (detail True cv bspline img) [0..<L] @ [coarse cv bspline img L])) cv fast =
         Inr (Image2 Float64 n n img)"
proof -
  let ?wave = "map (detail True cv bspline img) [0..<L] @ [coarse cv bspline img L]"
  have last: "?wave ! (Suc L - 1) = coarse cv bspline img (L - 0)"
    by (simp add: nth_append del: coarse.simps)
  have loop: "fold (\<lambda>i (d, cJ). (smooth_dtype d cv,
                       add2 (smooth d cv cJ (dilate bspline (Suc L - 1 - i)))
                            (?wave ! (Suc L - 1 - i))))
             [1..<Suc L] (Float64, coarse cv bspline img (L - 0)) = (Float64, img)"
    using inverse_loop [OF sh refl, of 0 L cv bspline] by (simp only: One_nat_def)
  have nz: "Suc L \<noteq> 0" by simp
  show ?thesis
    unfolding inverse_transform_slit_def cube.case if_not_P [OF path] Let_def if_not_P [OF nz]
      last loop prod.case reshape_same [OF sh] sum.case
    by (rule refl)
qed

text \<open>
  On a square image of floats the code does what the claim says: for side at least 2 and
  \<open>n_scales \<ge> 2\<close> (and \<open>n_scales - 1\<close> outside the range \<open>2\<^sup>6\<^sup>3 \<dots> 2\<^sup>6\<^sup>4 - 1\<close> in which
  \<^verbatim>\<open>np.min\<close> returns a float), without pysap, in the second-generation convention, the
  decomposition succeeds, and the recursive reconstruction (start from the coarse plane; at
  step \<open>i\<close> smooth with the kernel of scale \<open>L - i\<close> and add the detail plane of that scale)
  returns the image itself over exact arithmetic; rounding is not modelled.
\<close>

lemma second_gen_square_roundtrip:
  assumes "\<not> use_pysap self" and "second_gen self"
    and "has_shape n n img" and "2 \<le> n" and "2 \<le> n_scales"
    and "\<not> (2 ^ 63 \<le> n_scales - 1 \<and> n_scales - 1 < 2 ^ 64)"
  shows "\<exists>out wave.
           decomposition self (Image2 Float64 n n img) n_scales =
             (out, Inr (Cube3 Float64 (length wave) n n wave)) \<and>
           length wave = nat (min (n_scales - 1) \<lfloor>log 2 (real n)\<rfloor>) + 1 \<and>
           function_starlets self (Cube3 Float64 (length wave) n n wave) n_scales =
             Inr (Image2 Float64 n n img)"
proof -
  let ?L = "nat (min (n_scales - 1) (int (ilog2 n)))"
  let ?wave = "map (detail True 0 bspline img) [0..<?L] @ [coarse 0 bspline img ?L]"
  have n0: "0 < n" using assms(4) by simp
  have fl: "\<lfloor>log 2 (real n)\<rfloor> = int (ilog2 n)" by (rule ilog2_floor_log [OF n0])
  have len: "length ?wave = Suc ?L" by simp
  have dec: "decomposition self (Image2 Float64 n n img) n_scales =
             (if n_scales - 1 > int (ilog2 n) then [Warning_lvl_set_to (int (ilog2 n))] else [],
              Inr (Cube3 Float64 (length ?wave) n n ?wave))"
    unfolding len
    using transform_slit_square [OF assms(3,4,5,6), of self "''Bspline''" 0] assms(1,2)
    by (simp add: decomposition_def base_kernel_def del: coarse.simps)
  have "\<not> (fast_inverse self \<and> \<not> second_gen self)" using assms(2) by simp
  from inverse_transform_slit_recursive [OF assms(3) this, of ?L 0 True]
  have "function_starlets self (Cube3 Float64 (length ?wave) n n ?wave) n_scales =
        Inr (Image2 Float64 n n img)"
    unfolding len using assms(1) by (simp add: function_starlets_def del: coarse.simps)
  moreover have "length ?wave = ?L + 1" by simp
  ultimately show ?thesis
    using dec unfolding fl by blast
qed

lemma second_gen_square_roundtrip_example:
  "\<exists>out wave. decomposition (init None 1 True True False)
                 (Image2 Float64 2 2 [[1, 2], [3, 4]]) 2 =
                 (out, Inr (Cube3 Float64 (length wave) 2 2 wave)) \<and>
               function_starlets (init None 1 True True False)
                 (Cube3 Float64 (length wave) 2 2 wave) 2 =
                 Inr (Image2 Float64 2 2 [[1, 2], [3, 4]])"
proof -
  have h: "\<not> use_pysap (init None 1 True True False)" "second_gen (init None 1 True True False)"
    "has_shape 2 2 [[1, 2], [3, 4]]"
    "(2::nat) \<le> 2" "(2::int) \<le> 2" "\<not> ((2::int) ^ 63 \<le> 2 - 1 \<and> (2::int) - 1 < 2 ^ 64)"
    by (simp_all add: init_def has_shape_def)
  from second_gen_square_roundtrip [OF h] show ?thesis by blast
qed

text \<open>
  Claim C2, on the code.  The claim: for every 2D image \<open>I\<close> and every \<open>n_scales \<ge> 2\<close>, in the
  second-generation convention, the recursive reconstruction of the decomposition of \<open>I\<close>
  returns \<open>I\<close> within numerical tolerance.  The decomposition is the one of the first
  generation and has the same defect: \<^verbatim>\<open>n1 = sh[1]\<close> beside \<^verbatim>\<open>n2 = sh[1]\<close> (lines 111-112)
  allocates planes of \<^verbatim>\<open>sh[1] x sh[1]\<close> pixels.  On the image of 3 rows and 2 columns \<open>[[1, 2], [3, 4], [5, 6]]\<close>
  with \<open>n_scales = 2\<close> the first detail plane, of shape \<open>(3, 2)\<close>, is assigned to a plane of
  shape \<open>(2, 2)\<close>: the decomposition raises \<^verbatim>\<open>ValueError\<close> and there is nothing to reconstruct.
\<close>

theorem second_gen_roundtrip_raises:
  "decomposition (init None 1 True True False) (Image2 Float64 3 2 [[1, 2], [3, 4], [5, 6]]) 2
   = ([], Inl ValueError)"
  by code_simp

section \<open>Scale cap and plane count\<close>

lemma bspline_half_width:
  assumes "0 < n" and "i < ilog2 n"
  shows "length (dilate bspline i) div 2 \<le> n"
proof -
  have "length (dilate bspline i) = 4 * 2 ^ i + 1"
    using length_dilate [of bspline i] by (simp add: bspline_def)
  then have "length (dilate bspline i) div 2 = 2 ^ Suc i" by simp
  also have "\<dots> \<le> 2 ^ ilog2 n" using assms(2) by (intro power_increasing) simp_all
  also have "\<dots> \<le> n" using ilog2_bounds [OF assms(1)] by simp
  finally show ?thesis .
qed

text \<open>
  On a square image of floats of side \<open>n \<ge> 2\<close> the cap works: without pysap, when
  \<open>n_scales\<close> exceeds \<open>floor (log2 n)\<close> (and \<open>n_scales - 1\<close> is outside the range
  \<open>2\<^sup>6\<^sup>3 \<dots> 2\<^sup>6\<^sup>4 - 1\<close>), the decomposition does not raise; it returns \<open>floor (log2 n)\<close>
  detail planes and the coarse plane; it prints the capped value when the cap cut something
  (\<open>n_scales - 1 > floor (log2 n)\<close>) and nothing otherwise; and the half-width of every kernel
  it builds is at most \<open>n\<close>.
\<close>

lemma scale_cap_square:
  assumes "\<not> use_pysap self" and "has_shape n n img" and "2 \<le> n"
    and "\<lfloor>log 2 (real n)\<rfloor> < n_scales"
    and "\<not> (2 ^ 63 \<le> n_scales - 1 \<and> n_scales - 1 < 2 ^ 64)"
  shows "\<exists>wave.
           decomposition self (Image2 Float64 n n img) n_scales =
             (if \<lfloor>log 2 (real n)\<rfloor> < n_scales - 1
              then [Warning_lvl_set_to \<lfloor>log 2 (real n)\<rfloor>] else [],
              Inr (Cube3 Float64 (length wave) n n wave)) \<and>
           int (length wave) = \<lfloor>log 2 (real n)\<rfloor> + 1 \<and>
           (\<forall>i<length wave - 1. length (dilate bspline i) div 2 \<le> n)"
proof -
  let ?L = "nat (min (n_scales - 1) (int (ilog2 n)))"
  let ?wave = "map (detail (second_gen self) 0 bspline img) [0..<?L] @ [coarse 0 bspline img ?L]"
  have n0: "0 < n" using assms(3) by simp
  have fl: "\<lfloor>log 2 (real n)\<rfloor> = int (ilog2 n)" by (rule ilog2_floor_log [OF n0])
  have ns: "2 \<le> n_scales" using assms(4) ilog2_pos [OF assms(3)] unfolding fl by simp
  have L: "?L = ilog2 n" using assms(4) unfolding fl by simp
  have len: "length ?wave = Suc ?L" by simp
  have dec: "decomposition self (Image2 Float64 n n img) n_scales =
             (if n_scales - 1 > int (ilog2 n) then [Warning_lvl_set_to (int (ilog2 n))] else [],
              Inr (Cube3 Float64 (length ?wave) n n ?wave))"
    unfolding len
    using transform_slit_square [OF assms(2,3) ns assms(5), of self "''Bspline''" 0] assms(1)
    by (simp add: decomposition_def base_kernel_def del: coarse.simps)
  have len': "length ?wave = ilog2 n + 1" using L by simp
  have "\<forall>i<length ?wave - 1. length (dilate bspline i) div 2 \<le> n"
    unfolding len' using bspline_half_width [OF n0] by simp
  with dec len' show ?thesis
    unfolding fl by (intro exI [of _ ?wave]) (simp del: coarse.simps)
qed

text \<open>The example of the specification: a \<open>4 \<times> 4\<close> image with \<open>n_scales = 20\<close>.\<close>

lemma scale_cap_example:
  "\<exists>wave. decomposition (init None 1 True False False)
             (Image2 Float64 4 4 (replicate 4 (replicate 4 0))) 20 =
             ([Warning_lvl_set_to 2], Inr (Cube3 Float64 3 4 4 wave)) \<and>
           length wave = 3 \<and>
           (\<forall>i<2. length (dilate bspline i) div 2 \<le> 4)"
proof -
  have fl: "\<lfloor>log 2 (real 4)\<rfloor> = 2"
  proof -
    have "ilog2 4 = 2" by code_simp
    with ilog2_floor_log [of 4] show ?thesis by simp
  qed
  have h: "\<not> use_pysap (init None 1 True False False)"
    "has_shape 4 4 (replicate 4 (replicate 4 0))" "(2::nat) \<le> 4" "\<lfloor>log 2 (real 4)\<rfloor> < 20"
    "\<not> ((2::int) ^ 63 \<le> 20 - 1 \<and> (20::int) - 1 < 2 ^ 64)"
    using fl by (simp_all add: init_def has_shape_def list_all_iff)
  from scale_cap_square [OF h] obtain wave where
    w: "decomposition (init None 1 True False False)
          (Image2 Float64 4 4 (replicate 4 (replicate 4 0))) 20 =
          ([Warning_lvl_set_to 2], Inr (Cube3 Float64 (length wave) 4 4 wave))"
       "int (length wave) = 3"
       "\<forall>i<length wave - 1. length (dilate bspline i) div 2 \<le> 4"
    unfolding fl by auto
  from w(2) have "length wave = 3" by simp
  with w show ?thesis by auto
qed

text \<open>
  Claim C4, on the code.  The claim: for every 2D image, when the requested number of scales
  exceeds \<open>floor (log2 (min spatial dimension))\<close>, the decomposition does not raise and
  proceeds with the capped number of scales.  On the image of one pixel \<open>[[1]]\<close> with
  \<open>n_scales = 2\<close> the cap is \<open>floor (log2 1) = 0\<close>: the code prints the capped value, allocates
  one plane, and the loop \<^verbatim>\<open>for i in range(0, lvl)\<close> runs no iteration; the statement after
  the loop, \<^verbatim>\<open>wave[i + 1, :, :] = c\<close> (line 168), reads the loop variable \<^verbatim>\<open>i\<close>, which was
  never bound, and the decomposition raises \<^verbatim>\<open>UnboundLocalError\<close>.
\<close>

theorem scale_cap_one_pixel_raises:
  "decomposition (init None 1 True False False) (Image2 Float64 1 1 [[1]]) 2
   = ([Warning_lvl_set_to 0], Inl UnboundLocalError)"
  by code_simp




section \<open>The spectral-norm cache\<close>

lemma spectral_norm_success:
  assumes "spectral_norm u self w p n = (Inr v, self', w')"
  shows "spectral_norm_attr self' = Some v \<and> n_scales_cache self' = Some n"
  using assms
  by (auto simp: spectral_norm_def Let_def split: option.splits prod.splits sum.splits if_splits)

lemma spectral_norm_hit:
  assumes "spectral_norm_attr self = Some v" and "n_scales_cache self = Some n"
  shows "spectral_norm u self w p n = (Inr v, self, w)"
  using assms by (simp add: spectral_norm_def)

lemma spectral_norm_miss:
  assumes "spectral_norm_attr self = Some v" and "n_scales_cache self = Some n" and "n' \<noteq> n"
  shows "spectral_norm u self w p n' =
         (case compute_spectral_norm u self w p n' 20 (1 / 10 ^ 10) of
            (Inl e, w') \<Rightarrow> (Inl e, self, w')
          | (Inr v', w') \<Rightarrow>
              (Inr v', self\<lparr>spectral_norm_attr := Some v', n_scales_cache := Some n'\<rparr>, w'))"
  using assms by (simp add: spectral_norm_def)

lemma spectral_norm_calls_hit:
  assumes "spectral_norm_attr self = Some v" and "n_scales_cache self = Some n"
  shows "spectral_norm_calls u self w ps n = (replicate (length ps) (Inr v), self, w)"
  by (induction ps) (simp_all add: spectral_norm_hit [OF assms])

text \<open>
  Claim C9.  After a call \<^verbatim>\<open>spectral_norm(p, n)\<close> has returned a value \<open>v\<close>, every later call with
  the same \<open>n_scales\<close>, for any sizes \<open>ps\<close>, returns \<open>v\<close> and leaves the object and the world as
  they were: the power iteration does not run.  A call with another \<open>n_scales\<close> runs it
  again and, when it returns a value, caches that value for the new \<open>n_scales\<close>.
\<close>

theorem spectral_norm_cached:
  assumes "spectral_norm u self w p n = (Inr v, self', w')"
  shows "spectral_norm_calls u self' w' ps n = (replicate (length ps) (Inr v), self', w') \<and>
         (n' \<noteq> n \<longrightarrow>
            spectral_norm u self' w' p' n' =
              (case compute_spectral_norm u self' w' p' n' 20 (1 / 10 ^ 10) of
                 (Inl e, w'') \<Rightarrow> (Inl e, self', w'')
               | (Inr v', w'') \<Rightarrow>
                   (Inr v', self'\<lparr>spectral_norm_attr := Some v', n_scales_cache := Some n'\<rparr>, w'')))"
proof -
  from spectral_norm_success [OF assms]
  have a: "spectral_norm_attr self' = Some v" and c: "n_scales_cache self' = Some n" by simp_all
  have hit: "spectral_norm_calls u self' w' ps n = (replicate (length ps) (Inr v), self', w')"
    by (rule spectral_norm_calls_hit [OF a c])
  have miss: "spectral_norm u self' w' p' n' =
              (case compute_spectral_norm u self' w' p' n' 20 (1 / 10 ^ 10) of
                 (Inl e, w'') \<Rightarrow> (Inl e, self', w'')
               | (Inr v', w'') \<Rightarrow>
                   (Inr v', self'\<lparr>spectral_norm_attr := Some v', n_scales_cache := Some n'\<rparr>, w''))"
    if "n' \<noteq> n"
    by (rule spectral_norm_miss [OF a c that])
  from hit miss show ?thesis by (intro conjI impI)
qed

text \<open>The witness runs a stand-in for the power iteration that counts its calls in the world
  and returns the count: after one call with \<open>n_scales = 3\<close> the count is 1, two further calls
  with \<open>n_scales = 3\<close> (sizes 5 and 7) return the cached 1 and leave the count at 1, and a call
  with \<open>n_scales = 4\<close> raises it to 2.\<close>

theorem spectral_norm_cached_witness:
  "spectral_norm (\<lambda>w num_pix operator inverse_operator num_iter tol. (Inr (real (Suc w)), Suc w))
     (init None 1 True False False) (0::nat) 10 3
   = (Inr 1, (init None 1 True False False)\<lparr>spectral_norm_attr := Some 1, n_scales_cache := Some 3\<rparr>, 1)
   \<and> spectral_norm_calls (\<lambda>w num_pix operator inverse_operator num_iter tol. (Inr (real (Suc w)), Suc w))
       ((init None 1 True False False)\<lparr>spectral_norm_attr := Some 1, n_scales_cache := Some 3\<rparr>)
       (1::nat) [5, 7] 3
     = ([Inr 1, Inr 1],
        (init None 1 True False False)\<lparr>spectral_norm_attr := Some 1, n_scales_cache := Some 3\<rparr>, 1)
   \<and> spectral_norm (\<lambda>w num_pix operator inverse_operator num_iter tol. (Inr (real (Suc w)), Suc w))
       ((init None 1 True False False)\<lparr>spectral_norm_attr := Some 1, n_scales_cache := Some 3\<rparr>)
       (1::nat) 5 4
     = (Inr 2, (init None 1 True False False)\<lparr>spectral_norm_attr := Some 2, n_scales_cache := Some 4\<rparr>, 2)"
proof -
  let ?u = "\<lambda>(w::nat) (num_pix::nat) (operator::image \<Rightarrow> message list \<times> (error + cube))
              (inverse_operator::cube \<Rightarrow> error + image) (num_iter::nat) (tol::real).
              (Inr (real (Suc w)) :: error + real, Suc w)"
  let ?s = "init None 1 True False False"
  let ?s' = "?s\<lparr>spectral_norm_attr := Some 1, n_scales_cache := Some 3\<rparr>"
  have first: "spectral_norm ?u ?s 0 10 3 = (Inr 1, ?s', 1)"
    by (simp add: spectral_norm_def compute_spectral_norm_def init_def)
  from spectral_norm_cached [OF first, of "[5, 7]" 4 5] show ?thesis
    using first by (simp add: compute_spectral_norm_def init_def)
qed

section \<open>Reconstruction and the plane count\<close>

text \<open>
  Claim C8, as the code has it.  Without pysap, \<^verbatim>\<open>function(coeffs, n_scales)\<close> never reads
  \<open>n_scales\<close>: it passes the cube alone to \<^verbatim>\<open>_inverse_transform_slit\<close>, which compares the plane
  count with nothing.  So the result is the same for every \<open>n_scales\<close>; and with first generation
  and fast inverse, a cube of any positive number of planes of one shape is reconstructed
  without error as the pixelwise sum of all its planes.
\<close>

theorem reconstruction_ignores_n_scales:
  assumes "\<not> use_pysap self"
  shows "function_starlets self coeffs n = function_starlets self coeffs n' \<and>
         (fast_inverse self \<and> \<not> second_gen self \<and> wave \<noteq> [] \<and> 0 < n1 \<and>
          (\<forall>p\<in>set wave. has_shape n1 n2 p) \<longrightarrow>
          (\<exists>img. function_starlets self (Cube3 dt (length wave) n1 n2 wave) n =
                   Inr (Image2 dt n1 n2 img) \<and>
                 has_shape n1 n2 img \<and>
                 (\<forall>y<n1. \<forall>x<n2. img ! y ! x = (\<Sum>p\<leftarrow>wave. p ! y ! x))))"
proof (intro conjI impI)
  show "function_starlets self coeffs n = function_starlets self coeffs n'"
    using assms by (simp add: function_starlets_def)
next
  assume a: "fast_inverse self \<and> \<not> second_gen self \<and> wave \<noteq> [] \<and> 0 < n1 \<and>
             (\<forall>p\<in>set wave. has_shape n1 n2 p)"
  let ?img = "map (\<lambda>y. map (\<lambda>x. \<Sum>p\<leftarrow>wave. p ! y ! x) [0..<n2]) [0..<n1]"
  have "function_starlets self (Cube3 dt (length wave) n1 n2 wave) n = Inr (Image2 dt n1 n2 ?img)"
    using assms a by (simp add: function_starlets_def inverse_transform_slit_def sum_axis0_def)
  moreover have "has_shape n1 n2 ?img" by (rule table_shape)
  moreover have "\<forall>y<n1. \<forall>x<n2. ?img ! y ! x = (\<Sum>p\<leftarrow>wave. p ! y ! x)" by simp
  ultimately show "\<exists>img. function_starlets self (Cube3 dt (length wave) n1 n2 wave) n =
                           Inr (Image2 dt n1 n2 img) \<and>
                         has_shape n1 n2 img \<and>
                         (\<forall>y<n1. \<forall>x<n2. img ! y ! x = (\<Sum>p\<leftarrow>wave. p ! y ! x))"
    by blast
qed

theorem reconstruction_ignores_n_scales_witness:
  "\<not> use_pysap (init None 1 True False False) \<and>
   function_starlets (init None 1 True False False)
     (Cube3 Float64 3 1 2 [[[1, 2]], [[3, 4]], [[5, 6]]]) 2 =
   function_starlets (init None 1 True False False)
     (Cube3 Float64 3 1 2 [[[1, 2]], [[3, 4]], [[5, 6]]]) 3 \<and>
   (\<exists>img. function_starlets (init None 1 True False False)
            (Cube3 Float64 3 1 2 [[[1, 2]], [[3, 4]], [[5, 6]]]) 2 = Inr (Image2 Float64 1 2 img) \<and>
          has_shape 1 2 img \<and> img ! 0 ! 1 = 12)"
proof -
  let ?s = "init None 1 True False False"
  let ?w = "[[[1, 2]], [[3, 4]], [[5, 6]]] :: array3"
  have l: "length ?w = 3" by simp
  have h: "\<not> use_pysap ?s" by (simp add: init_def)
  have p: "fast_inverse ?s \<and> \<not> second_gen ?s \<and> ?w \<noteq> [] \<and> (0::nat) < 1 \<and>
           (\<forall>p\<in>set ?w. has_shape 1 2 p)"
    by (simp add: init_def has_shape_def)
  from reconstruction_ignores_n_scales [OF h, of "Cube3 Float64 3 1 2 ?w" 2 3 ?w 1 2 Float64] p
  obtain img where
    eq: "function_starlets ?s (Cube3 Float64 3 1 2 ?w) 2 =
         function_starlets ?s (Cube3 Float64 3 1 2 ?w) 3"
    and img: "function_starlets ?s (Cube3 Float64 3 1 2 ?w) 2 = Inr (Image2 Float64 1 2 img)"
      "has_shape 1 2 img"
      "\<forall>y<1. \<forall>x<2. img ! y ! x = (\<Sum>p\<leftarrow>?w. p ! y ! x)"
    unfolding l by blast
  from img(3) have "img ! 0 ! 1 = 12" by simp
  with h eq img show ?thesis by blast
qed

theorem reconstruction_plane_count_counterexample:
  "function_starlets (init None 1 True False False)
     (Cube3 Float64 3 2 2 [[[1, 2], [3, 4]], [[1, 1], [1, 1]], [[0, 0], [0, 1]]]) 2
   = Inr (Image2 Float64 2 2 [[2, 3], [4, 6]])"
  by code_simp

section \<open>Stacks of slices\<close>

text \<open>
  Claim C3, on the code.  The stack branch of \<^verbatim>\<open>_transform_slit\<close> calls \<^verbatim>\<open>wave_transform\<close>, a
  name the module does not bind: decomposing the stack of two \<open>2 \<times> 2\<close> slices raises
  \<^verbatim>\<open>NameError\<close> instead of returning the 4-D array of per-slice coefficients.
\<close>

theorem stack_decomposition_raises:
  "decomposition (init None 1 True False False)
     (Stack3 Float64 2 2 2 [[[1, 2], [3, 4]], [[5, 6], [7, 8]]]) 2
   = ([], Inl NameError)"
  by code_simp

section \<open>The convolver, pixel by pixel\<close>

lemma nearest_index_less: "0 < n \<Longrightarrow> nearest_index n k < n"
  by (auto simp: nearest_index_def)

lemma convolve1d_axis0_nth:
  assumes "has_shape n1 n2 c" and "y < n1" and "x < n2"
  shows "convolve1d dt c w 0 m ! y ! x =
         astype dt (\<Sum>k\<leftarrow>[0..<length w].
                      w ! k * c ! ext_index m n1 (int y + int (length w div 2) - int k) ! x)"
proof -
  have "length c = n1" using assms(1) by (rule has_shapeD(1))
  moreover have "0 < n1" using assms(2) by simp
  then have "ncols c = n2" using assms(1) by (intro has_shape_ncols)
  ultimately show ?thesis
    unfolding convolve1d_def Let_def using assms(2,3) by simp
qed

lemma convolve1d_axis1_nth:
  assumes "has_shape n1 n2 c" and "y < n1" and "x < n2" and "axis \<noteq> 0"
  shows "convolve1d dt c w axis m ! y ! x =
         astype dt (\<Sum>k\<leftarrow>[0..<length w].
                      w ! k * c ! y ! ext_index m n2 (int x + int (length w div 2) - int k))"
proof -
  have "length c = n1" using assms(1) by (rule has_shapeD(1))
  moreover have "0 < n1" using assms(2) by simp
  then have "ncols c = n2" using assms(1) by (intro has_shape_ncols)
  ultimately show ?thesis
    unfolding convolve1d_def Let_def using assms(2,3,4) by simp
qed

lemma smooth_separable_nth:
  assumes sh: "has_shape n1 n2 c" and y: "y < n1" and x: "x < n2" and cv: "convol2d \<noteq> 1"
  shows "smooth dt convol2d c w ! y ! x =
         astype dt (\<Sum>k\<leftarrow>[0..<length w]. w ! k *
            astype dt (\<Sum>j\<leftarrow>[0..<length w]. w ! j *
               c ! nearest_index n1 (int y + int (length w div 2) - int j)
                 ! nearest_index n2 (int x + int (length w div 2) - int k)))"
proof -
  let ?r = "int (length w div 2)"
  let ?c1 = "convolve1d dt c w 0 Nearest"
  have sh1: "has_shape n1 n2 ?c1" by (rule convolve1d_shape [OF sh])
  have n2: "0 < n2" using x by simp
  have inner: "?c1 ! y ! nearest_index n2 t =
               astype dt (\<Sum>j\<leftarrow>[0..<length w]. w ! j * c ! nearest_index n1 (int y + ?r - int j)
                                                ! nearest_index n2 t)" for t
    using convolve1d_axis0_nth [OF sh y nearest_index_less [OF n2], of dt w Nearest t] by simp
  have "smooth dt convol2d c w ! y ! x = convolve1d dt ?c1 w 1 Nearest ! y ! x"
    using cv by (simp add: smooth_def)
  also have "\<dots> = astype dt (\<Sum>k\<leftarrow>[0..<length w].
                        w ! k * ?c1 ! y ! nearest_index n2 (int x + ?r - int k))"
    using convolve1d_axis1_nth [OF sh1 y x, of 1 dt w Nearest] by simp
  finally show ?thesis by (simp only: inner)
qed

lemma outer_nth: "j < length u \<Longrightarrow> k < length v \<Longrightarrow> outer u v ! j ! k = u ! j * v ! k"
  by (simp add: outer_def)

lemma outer_dims: "length (outer w w) = length w" "ncols (outer w w) = length w"
  by (cases w; simp add: outer_def ncols_def)+

lemma smooth_direct_nth:
  assumes sh: "has_shape n1 n2 c" and y: "y < n1" and x: "x < n2" and odd: "odd (length w)"
  shows "smooth dt 1 c w ! y ! x =
         (\<Sum>j\<leftarrow>[0..<length w]. \<Sum>k\<leftarrow>[0..<length w]. w ! j * w ! k *
               c ! symm_index n1 (int y + int (length w div 2) - int j)
                 ! symm_index n2 (int x + int (length w div 2) - int k))"
proof -
  have len: "length c = n1" using sh by (rule has_shapeD(1))
  have "0 < n1" using y by simp
  then have nc: "ncols c = n2" using sh by (intro has_shape_ncols)
  have half: "(length w - 1) div 2 = length w div 2" using odd by (auto elim: oddE)
  have "smooth dt 1 c w ! y ! x =
        (\<Sum>j\<leftarrow>[0..<length w]. \<Sum>k\<leftarrow>[0..<length w]. outer w w ! j ! k *
               c ! symm_index n1 (int y + int (length w div 2) - int j)
                 ! symm_index n2 (int x + int (length w div 2) - int k))"
    unfolding smooth_def convolve2d_same_symm_def Let_def outer_dims half len nc
    using y x by simp
  also have "\<dots> = (\<Sum>j\<leftarrow>[0..<length w]. \<Sum>k\<leftarrow>[0..<length w]. w ! j * w ! k *
               c ! symm_index n1 (int y + int (length w div 2) - int j)
                 ! symm_index n2 (int x + int (length w div 2) - int k))"
    by (intro arg_cong [where f = sum_list] map_cong refl) (simp add: outer_nth)
  finally show ?thesis .
qed

text \<open>
  Claim C6, as the code has it.  On an image of shape \<open>n1 \<times> n2\<close>, every pixel of the smoothing
  step is a weighted sum of image samples whose positions are brought into range, in the
  separable path (\<^verbatim>\<open>convol2d\<close> other than 1) by \<^verbatim>\<open>'nearest'\<close>, which repeats the edge sample
  (\<open>a a a | a b c d | d d d\<close>), and in the direct 2-D path (\<^verbatim>\<open>convol2d == 1\<close>, kernel of odd
  length) by \<^verbatim>\<open>'symm'\<close>, a reflection that repeats the edge sample
  (\<open>c b a | a b c d | d c b\<close>).  Neither path mirrors without repeating the edge.  On the
  separable path each of the two passes stores its sums in the image's dtype (\<open>astype\<close>, the
  identity on floats); the direct path returns floats.
\<close>

theorem smooth_boundary_policy:
  assumes "has_shape n1 n2 c" and "y < n1" and "x < n2"
  shows "(convol2d \<noteq> 1 \<longrightarrow>
            smooth dt convol2d c w ! y ! x =
            astype dt (\<Sum>k\<leftarrow>[0..<length w]. w ! k *
               astype dt (\<Sum>j\<leftarrow>[0..<length w]. w ! j *
                  c ! nearest_index n1 (int y + int (length w div 2) - int j)
                    ! nearest_index n2 (int x + int (length w div 2) - int k)))) \<and>
         (odd (length w) \<longrightarrow>
            smooth dt 1 c w ! y ! x =
            (\<Sum>j\<leftarrow>[0..<length w]. \<Sum>k\<leftarrow>[0..<length w]. w ! j * w ! k *
               c ! symm_index n1 (int y + int (length w div 2) - int j)
                 ! symm_index n2 (int x + int (length w div 2) - int k))) \<and>
         nearest_index n1 (- 1) = 0 \<and> nearest_index n1 (int n1) = n1 - 1 \<and>
         symm_index n1 (- 1) = 0 \<and> symm_index n1 (int n1) = n1 - 1"
proof -
  have n1: "0 < n1" using assms(2) by simp
  have "nearest_index n1 (- 1) = 0" "nearest_index n1 (int n1) = n1 - 1"
    by (simp_all add: nearest_index_def)
  moreover have "symm_index n1 (- 1) = 0"
  proof -
    have "(- 1) mod (2 * int n1) = 2 * int n1 - 1"
      using n1 by (simp add: zmod_minus1)
    then show ?thesis using n1 by (simp add: symm_index_def Let_def)
  qed
  moreover have "symm_index n1 (int n1) = n1 - 1"
  proof -
    have "int n1 mod (2 * int n1) = int n1" using n1 by simp
    then show ?thesis using n1 by (simp add: symm_index_def Let_def)
  qed
  ultimately show ?thesis
    using smooth_separable_nth [OF assms] smooth_direct_nth [OF assms] by blast
qed

theorem smooth_boundary_policy_witness:
  "has_shape 3 3 [[1, 0, 0], [0, 0, 0], [0, 0, 0]] \<and>
   smooth Float64 0 [[1, 0, 0], [0, 0, 0], [0, 0, 0]] (dilate bspline 0) ! 0 ! 0 = 121 / 256 \<and>
   smooth Float64 1 [[1, 0, 0], [0, 0, 0], [0, 0, 0]] (dilate bspline 0) ! 0 ! 0 = 25 / 64"
proof -
  let ?c = "[[1, 0, 0], [0, 0, 0], [0, 0, 0]] :: array2"
  have d: "dilate bspline 0 = [1/16, 1/4, 3/8, 1/4, 1/16]" by code_simp
  have h: "has_shape 3 3 ?c" "(0::nat) < 3" by (simp_all add: has_shape_def)
  have o: "odd (length (dilate bspline 0))" "(0::int) \<noteq> 1" by (simp_all add: d)
  from smooth_boundary_policy [OF h(1) h(2) h(2), of 0 Float64 "dilate bspline 0"] o
  have "smooth Float64 0 ?c (dilate bspline 0) ! 0 ! 0 =
        (\<Sum>k\<leftarrow>[0..<length (dilate bspline 0)]. dilate bspline 0 ! k *
           (\<Sum>j\<leftarrow>[0..<length (dilate bspline 0)]. dilate bspline 0 ! j *
              ?c ! nearest_index 3 (int 0 + int (length (dilate bspline 0) div 2) - int j)
                 ! nearest_index 3 (int 0 + int (length (dilate bspline 0) div 2) - int k)))"
    and "smooth Float64 1 ?c (dilate bspline 0) ! 0 ! 0 =
        (\<Sum>j\<leftarrow>[0..<length (dilate bspline 0)]. \<Sum>k\<leftarrow>[0..<length (dilate bspline 0)].
           dilate bspline 0 ! j * dilate bspline 0 ! k *
              ?c ! symm_index 3 (int 0 + int (length (dilate bspline 0) div 2) - int j)
                 ! symm_index 3 (int 0 + int (length (dilate bspline 0) div 2) - int k))"
    by (simp_all add: astype_def)
  moreover have "(\<Sum>k\<leftarrow>[0..<length (dilate bspline 0)]. dilate bspline 0 ! k *
           (\<Sum>j\<leftarrow>[0..<length (dilate bspline 0)]. dilate bspline 0 ! j *
              ?c ! nearest_index 3 (int 0 + int (length (dilate bspline 0) div 2) - int j)
                 ! nearest_index 3 (int 0 + int (length (dilate bspline 0) div 2) - int k)))
        = 121 / 256"
    by code_simp
  moreover have "(\<Sum>j\<leftarrow>[0..<length (dilate bspline 0)]. \<Sum>k\<leftarrow>[0..<length (dilate bspline 0)].
           dilate bspline 0 ! j * dilate bspline 0 ! k *
              ?c ! symm_index 3 (int 0 + int (length (dilate bspline 0) div 2) - int j)
                 ! symm_index 3 (int 0 + int (length (dilate bspline 0) div 2) - int k))
        = 25 / 64"
    by code_simp
  ultimately show ?thesis using h(1) by simp
qed

theorem mirror_policy_counterexample:
  "smooth Float64 0 [[1, 0, 0], [0, 0, 0], [0, 0, 0]] (dilate bspline 0)
     \<noteq> mirror_convolve Float64 [[1, 0, 0], [0, 0, 0], [0, 0, 0]] (dilate bspline 0) \<and>
   smooth Float64 1 [[1, 0, 0], [0, 0, 0], [0, 0, 0]] (dilate bspline 0)
     \<noteq> mirror_convolve Float64 [[1, 0, 0], [0, 0, 0], [0, 0, 0]] (dilate bspline 0)"
  by code_simp

section \<open>Separable path against direct 2-D path\<close>

lemma nearest_symm_agree:
  assumes "0 < n" and "- 1 \<le> t" and "t \<le> int n"
  shows "nearest_index n t = symm_index n t"
proof -
  consider "t = - 1" | "0 \<le> t \<and> t < int n" | "t = int n" using assms(2,3) by linarith
  then show ?thesis
  proof cases
    case 1
    have "(- 1) mod (2 * int n) = 2 * int n - 1" using assms(1) by (simp add: zmod_minus1)
    with 1 assms(1) show ?thesis by (simp add: nearest_index_def symm_index_def Let_def)
  next
    case 2
    then have "t mod (2 * int n) = t" by simp
    with 2 show ?thesis by (simp add: nearest_index_def symm_index_def Let_def)
  next
    case 3
    have "int n mod (2 * int n) = int n" using assms(1) by simp
    with 3 assms(1) show ?thesis by (simp add: nearest_index_def symm_index_def Let_def)
  qed
qed

lemma window_index:
  assumes "0 < n" and "length w div 2 \<le> y + 1" and "y + length w div 2 \<le> n"
    and "odd (length w)" and "j < length w"
  shows "nearest_index n (int y + int (length w div 2) - int j) =
         symm_index n (int y + int (length w div 2) - int j)"
proof -
  have "j \<le> 2 * (length w div 2)" using assms(4,5) by (auto elim!: oddE)
  then have "- 1 \<le> int y + int (length w div 2) - int j" using assms(2) by linarith
  moreover have "int y + int (length w div 2) - int j \<le> int n" using assms(3) by linarith
  ultimately show ?thesis by (rule nearest_symm_agree [OF assms(1)])
qed

lemma sum_list_swap_weights:
  fixes a :: "nat \<Rightarrow> nat \<Rightarrow> real"
  shows "(\<Sum>k\<leftarrow>[0..<l]. u k * (\<Sum>j\<leftarrow>[0..<l]. u j * a j k)) =
         (\<Sum>j\<leftarrow>[0..<l]. \<Sum>k\<leftarrow>[0..<l]. u j * u k * a j k)"
proof -
  have "(\<Sum>k\<leftarrow>[0..<l]. u k * (\<Sum>j\<leftarrow>[0..<l]. u j * a j k)) =
        (\<Sum>k\<in>{0..<l}. \<Sum>j\<in>{0..<l}. u j * u k * a j k)"
    by (simp add: interv_sum_list_conv_sum_set_nat sum_distrib_left mult_ac)
  also have "\<dots> = (\<Sum>j\<in>{0..<l}. \<Sum>k\<in>{0..<l}. u j * u k * a j k)"
    by (rule sum.swap)
  also have "\<dots> = (\<Sum>j\<leftarrow>[0..<l]. \<Sum>k\<leftarrow>[0..<l]. u j * u k * a j k)"
    by (simp add: interv_sum_list_conv_sum_set_nat)
  finally show ?thesis .
qed

text \<open>
  Claim C7, as the code has it.  The separable path extends the image by \<^verbatim>\<open>'nearest'\<close>, the
  direct 2-D path by \<^verbatim>\<open>'symm'\<close>; the two extensions agree on the first sample beyond each
  border and differ further out.  Moreover the separable path stores the result of each pass
  in the image's dtype, while the direct path returns floats.  So for an array of floats and a
  kernel of odd length \<open>2 r + 1\<close>, the two paths give the same value (exact arithmetic) at
  every pixel \<open>(y, x)\<close> whose window reaches at most one sample beyond each border:
  \<open>r \<le> y + 1\<close>, \<open>y + r \<le> n1\<close>, \<open>r \<le> x + 1\<close>, \<open>x + r \<le> n2\<close>.
\<close>

theorem separable_equals_direct_inside:
  assumes "has_shape n1 n2 c" and "y < n1" and "x < n2" and "odd (length w)"
    and "length w div 2 \<le> y + 1" and "y + length w div 2 \<le> n1"
    and "length w div 2 \<le> x + 1" and "x + length w div 2 \<le> n2"
    and "convol2d \<noteq> 1"
  shows "smooth Float64 convol2d c w ! y ! x = smooth Float64 1 c w ! y ! x"
proof -
  let ?r = "int (length w div 2)"
  have n1: "0 < n1" and n2: "0 < n2" using assms(2,3) by simp_all
  have iy: "nearest_index n1 (int y + ?r - int j) = symm_index n1 (int y + ?r - int j)"
    if "j < length w" for j
    by (rule window_index [OF n1 assms(5,6,4) that])
  have ix: "nearest_index n2 (int x + ?r - int k) = symm_index n2 (int x + ?r - int k)"
    if "k < length w" for k
    by (rule window_index [OF n2 assms(7,8,4) that])
  have "smooth Float64 convol2d c w ! y ! x =
        (\<Sum>k\<leftarrow>[0..<length w]. w ! k *
           (\<Sum>j\<leftarrow>[0..<length w]. w ! j *
              c ! nearest_index n1 (int y + ?r - int j) ! nearest_index n2 (int x + ?r - int k)))"
    using smooth_separable_nth [OF assms(1,2,3,9), of Float64 w] by (simp add: astype_def)
  also have "\<dots> =
        (\<Sum>k\<leftarrow>[0..<length w]. w ! k *
           (\<Sum>j\<leftarrow>[0..<length w]. w ! j *
              c ! symm_index n1 (int y + ?r - int j) ! symm_index n2 (int x + ?r - int k)))"
    by (intro arg_cong [where f = sum_list] map_cong refl arg_cong2 [where f = "(*)"])
       (simp_all add: iy ix)
  also have "\<dots> =
        (\<Sum>j\<leftarrow>[0..<length w]. \<Sum>k\<leftarrow>[0..<length w]. w ! j * w ! k *
              c ! symm_index n1 (int y + ?r - int j) ! symm_index n2 (int x + ?r - int k))"
    by (rule sum_list_swap_weights)
  also have "\<dots> = smooth Float64 1 c w ! y ! x"
    by (rule smooth_direct_nth [OF assms(1,2,3,4), symmetric])
  finally show ?thesis .
qed

theorem separable_equals_direct_inside_witness:
  "has_shape 3 3 [[1, 2, 3], [4, 5, 6], [7, 8, 10]] \<and> odd (length (dilate bspline 0)) \<and>
   length (dilate bspline 0) div 2 = 2 \<and>
   smooth Float64 0 [[1, 2, 3], [4, 5, 6], [7, 8, 10]] (dilate bspline 0) ! 1 ! 1 =
   smooth Float64 1 [[1, 2, 3], [4, 5, 6], [7, 8, 10]] (dilate bspline 0) ! 1 ! 1"
proof -
  have d: "dilate bspline 0 = [1/16, 1/4, 3/8, 1/4, 1/16]" by code_simp
  have h: "has_shape 3 3 [[1, 2, 3], [4, 5, 6], [7, 8, 10]]" "(1::nat) < 3" "(1::nat) < 3"
    "odd (length (dilate bspline 0))"
    "length (dilate bspline 0) div 2 \<le> 1 + 1" "1 + length (dilate bspline 0) div 2 \<le> 3"
    "length (dilate bspline 0) div 2 \<le> 1 + 1" "1 + length (dilate bspline 0) div 2 \<le> 3"
    "(0::int) \<noteq> 1"
    by (simp_all add: has_shape_def d)
  from separable_equals_direct_inside [OF h] h(1,4) show ?thesis by (simp add: d)
qed

theorem separable_direct_border_counterexample:
  "smooth Float64 0 [[0, 1, 0], [0, 0, 0], [0, 0, 0]] (dilate bspline 0) ! 0 ! 0 = 11 / 64 \<and>
   smooth Float64 1 [[0, 1, 0], [0, 0, 0], [0, 0, 0]] (dilate bspline 0) ! 0 ! 0 = 25 / 128 \<and>
   smooth Int64 0 [[1, 2, 3], [4, 5, 6], [7, 8, 10]] (dilate bspline 0) ! 1 ! 1 = 5 \<and>
   smooth Int64 1 [[1, 2, 3], [4, 5, 6], [7, 8, 10]] (dilate bspline 0) ! 1 ! 1 = 1305 / 256"
  by code_simp

end
